(* ===== verification/Prelude.thy ===== *)
theory Prelude
  imports Main "HOL-Library.Word"
begin

text \<open>
  Shared material of the Mini-ICS development: the machine-integer types of the C++ sources,
  little-endian byte strings (the reference codec against which every hand-written
  \<open>Put\<close>/\<open>Get\<close>/\<open>Encode\<close>/\<open>Decode\<close> routine is proved equivalent), writes into a byte buffer
  at an offset, decimal and hexadecimal printing as \<open>std::to_string\<close> and \<open>printf\<close> do it, and the collection of
  rewrite rules for byte buffers that the codec proofs use.
\<close>

unbundle bit_operations_syntax

section \<open>Machine integers\<close>

type_synonym u8 = "8 word"
type_synonym u16 = "16 word"
type_synonym u32 = "32 word"
type_synonym u64 = "64 word"
type_synonym bytes = "u8 list"

named_theorems byte_simps \<open>evaluation of byte buffers and little-endian codecs\<close>

section \<open>Little-endian byte strings\<close>

definition byte_of :: "'a::len word \<Rightarrow> nat \<Rightarrow> u8" where
  "byte_of v i = ucast (drop_bit (8 * i) v)"

definition le_bytes :: "nat \<Rightarrow> 'a::len word \<Rightarrow> bytes" where
  "le_bytes n v = map (byte_of v) [0..<n]"

fun le_value :: "bytes \<Rightarrow> 'a::len word" where
  "le_value [] = 0"
| "le_value (b # bs) = ucast b OR push_bit 8 (le_value bs)"

definition overwrite :: "'a list \<Rightarrow> nat \<Rightarrow> 'a list \<Rightarrow> 'a list" where
  "overwrite buf p bs = take p buf @ bs @ drop (p + length bs) buf"

section \<open>Population count\<close>

definition popcount :: "'a::len word \<Rightarrow> nat" where
  "popcount w = length (filter (bit w) [0..<LENGTH('a)])"

section \<open>Decimal numerals\<close>

definition digit_char :: "nat \<Rightarrow> char" where
  "digit_char d = char_of (48 + d)"

fun dec_string :: "nat \<Rightarrow> string" where
  "dec_string n = (if n < 10 then [digit_char n] else dec_string (n div 10) @ [digit_char (n mod 10)])"

declare dec_string.simps [simp del]

fun dec_value :: "string \<Rightarrow> nat" where
  "dec_value s = foldl (\<lambda>v c. 10 * v + (of_char c - 48)) 0 s"

section \<open>Hexadecimal numerals and C strings\<close>

definition hex_char :: "nat \<Rightarrow> char" where
  "hex_char d = (if d < 10 then digit_char d else char_of (87 + d))"

fun hex_string :: "nat \<Rightarrow> string" where
  "hex_string n = (if n < 16 then [hex_char n] else hex_string (n div 16) @ [hex_char (n mod 16)])"

declare hex_string.simps [simp del]

definition pad_zero :: "nat \<Rightarrow> string \<Rightarrow> string" where
  "pad_zero w s = replicate (w - length s) (CHR ''0'') @ s"

text \<open>\<open>isspace\<close> in the C locale.\<close>

definition is_space :: "char \<Rightarrow> bool" where
  "is_space ch \<longleftrightarrow> of_char ch = (32 :: nat) \<or> (9 \<le> (of_char ch :: nat) \<and> of_char ch \<le> (13 :: nat))"

section \<open>Facts about bytes and buffers\<close>

lemma length_le_bytes [simp, byte_simps]: "length (le_bytes n v) = n"
  by (simp add: le_bytes_def)

lemma nth_le_bytes [simp, byte_simps]: "i < n \<Longrightarrow> le_bytes n v ! i = byte_of v i"
  by (simp add: le_bytes_def)

lemma bit_byte_of: "bit (byte_of v i) k \<longleftrightarrow> k < 8 \<and> bit v (8 * i + k)"
  by (auto simp: byte_of_def bit_simps dest: bit_imp_le_length)

lemma byte_of_mask: "ucast (drop_bit (8 * i) v AND 0xFF) = byte_of v i"
proof (rule bit_word_eqI)
  fix k assume "k < LENGTH(8)"
  have "(0xFF :: 'a word) = mask 8" by (simp add: mask_eq_exp_minus_1)
  then have "drop_bit (8 * i) v AND 0xFF = take_bit 8 (drop_bit (8 * i) v)"
    by (simp only: take_bit_eq_mask)
  then show "bit (ucast (drop_bit (8 * i) v AND 0xFF) :: u8) k = bit (byte_of v i) k"
    using \<open>k < LENGTH(8)\<close> by (auto simp: bit_byte_of bit_simps dest: bit_imp_le_length)
qed

lemma le_bytes_Suc: "le_bytes (Suc n) v = ucast v # le_bytes n (drop_bit 8 v)"
proof (rule nth_equalityI)
  show "le_bytes (Suc n) v ! i = (ucast v # le_bytes n (drop_bit 8 v)) ! i"
    if "i < length (le_bytes (Suc n) v)" for i
  proof (cases i)
    case 0
    then show ?thesis by (simp add: byte_of_def)
  next
    case (Suc j)
    with that have "j < n" by simp
    moreover have "byte_of v (Suc j) = byte_of (drop_bit 8 v) j"
      by (rule bit_word_eqI) (auto simp: bit_byte_of bit_simps algebra_simps)
    ultimately show ?thesis using Suc that by simp
  qed
qed simp

lemma le_bytes_0 [simp, byte_simps]: "le_bytes 0 v = []"
  by (simp add: le_bytes_def)

lemma bit_le_value:
  "bit (le_value bs :: 'a::len word) k \<longleftrightarrow> k < LENGTH('a) \<and> k < 8 * length bs \<and> bit (bs ! (k div 8)) (k mod 8)"
proof (induction bs arbitrary: k)
  case Nil
  show ?case by simp
next
  case (Cons b bs)
  show ?case
  proof (cases "k < 8")
    case True
    then show ?thesis by (auto simp: bit_simps)
  next
    case False
    then obtain j where k: "k = 8 + j" by (metis le_add_diff_inverse not_less)
    have "(8 + j) div 8 = Suc (j div 8)" by simp
    moreover have "\<not> bit b k" using False bit_imp_le_length [of b k] by auto
    ultimately show ?thesis using Cons.IH [of j] by (auto simp: bit_simps k)
  qed
qed

lemma le_value_le_bytes:
  fixes v :: "'a::len word"
  assumes "LENGTH('a) \<le> 8 * n"
  shows "le_value (le_bytes n v) = v"
proof (rule bit_word_eqI)
  fix k assume "k < LENGTH('a)"
  moreover from this assms have "k div 8 < n" by (simp add: less_mult_imp_div_less mult.commute)
  ultimately show "bit (le_value (le_bytes n v) :: 'a word) k = bit v k"
    using assms by (auto simp: bit_le_value bit_byte_of)
qed

lemma le_bytes_le_value:
  assumes "8 * length bs \<le> LENGTH('a::len)"
  shows "le_bytes (length bs) (le_value bs :: 'a word) = bs"
proof (rule nth_equalityI)
  fix i assume "i < length (le_bytes (length bs) (le_value bs :: 'a word))"
  then have i: "i < length bs" by simp
  show "le_bytes (length bs) (le_value bs :: 'a word) ! i = bs ! i"
  proof (rule bit_word_eqI)
    fix k assume "k < LENGTH(8)"
    then have k: "k < 8" by simp
    then have "(8 * i + k) div 8 = i" "(8 * i + k) mod 8 = k" by simp_all
    moreover have "8 * i + k < 8 * length bs" using i k by linarith
    ultimately show "bit (le_bytes (length bs) (le_value bs :: 'a word) ! i) k = bit (bs ! i) k"
      using i k assms by (simp add: bit_byte_of bit_le_value)
  qed
qed simp

lemma le_value_inj:
  assumes "le_value bs = (le_value cs :: 'a::len word)" "length bs = length cs"
    and "8 * length bs \<le> LENGTH('a)"
  shows "bs = cs"
  using assms by (metis le_bytes_le_value)

lemma le_value_eq_iff:
  assumes "length bs = n" "8 * n = LENGTH('a::len)"
  shows "(le_value bs :: 'a word) = v \<longleftrightarrow> bs = le_bytes n v"
  using assms le_bytes_le_value [of bs, where 'a = 'a] le_value_le_bytes [of n v] by auto

lemma length_overwrite [simp, byte_simps]:
  "p + length bs \<le> length buf \<Longrightarrow> length (overwrite buf p bs) = length buf"
  by (simp add: overwrite_def)

lemma overwrite_Nil [simp, byte_simps]: "overwrite buf p [] = buf"
  by (simp add: overwrite_def)

lemma overwrite_all: "length bs = length buf \<Longrightarrow> overwrite buf 0 bs = bs"
  by (simp add: overwrite_def)

lemma overwrite_update:
  assumes "p + length bs < length buf"
  shows "(overwrite buf p bs)[p + length bs := b] = overwrite buf p (bs @ [b])"
proof -
  have "drop (p + length bs) buf = buf ! (p + length bs) # drop (Suc (p + length bs)) buf"
    using assms by (simp add: Cons_nth_drop_Suc)
  then show ?thesis using assms
    by (simp add: overwrite_def list_update_append)
qed

lemma overwrite_single: "p < length buf \<Longrightarrow> buf[p := b] = overwrite buf p [b]"
  by (simp add: overwrite_def upd_conv_take_nth_drop)

lemma fold_update_overwrite:
  assumes "p + n \<le> length buf"
  shows "fold (\<lambda>i d. d[p + i := f i]) [0..<n] buf = overwrite buf p (map f [0..<n])"
  using assms
proof (induction n)
  case 0
  then show ?case by (simp add: overwrite_def)
next
  case (Suc n)
  then show ?case using overwrite_update [of p "map f [0..<n]" buf "f n"] by simp
qed

lemma take_drop_overwrite_same [simp]:
  "p + length bs \<le> length buf \<Longrightarrow> take (length bs) (drop p (overwrite buf p bs)) = bs"
  by (simp add: overwrite_def)

section \<open>Facts about decimal numerals\<close>

lemma of_char_digit_char: "d < 10 \<Longrightarrow> of_char (digit_char d) = 48 + d"
  by (simp add: digit_char_def)

lemma dec_value_snoc: "dec_value (s @ [c]) = 10 * dec_value s + (of_char c - 48)"
  by simp

lemma dec_value_dec_string: "dec_value (dec_string n) = n"
proof (induction n rule: dec_string.induct)
  case (1 n)
  show ?case
  proof (cases "n < 10")
    case True
    then show ?thesis by (subst dec_string.simps) (simp add: of_char_digit_char)
  next
    case False
    with 1 have "dec_value (dec_string (n div 10)) = n div 10" by simp
    with False show ?thesis
      by (subst dec_string.simps)
        (simp only: if_False dec_value_snoc, simp add: of_char_digit_char)
  qed
qed

lemma dec_string_inject [simp]: "dec_string m = dec_string n \<longleftrightarrow> m = n"
  by (metis dec_value_dec_string)

lemma dec_string_not_Nil [simp]: "dec_string n \<noteq> []"
  by (subst dec_string.simps) simp

end
