(* ===== verification/Protocol.thy ===== *)
theory Protocol
  imports Prelude
begin

text \<open>
  The Mini-ICS v2 wire protocol (\<open>mini-ics/include/mini_ics/protocol.hpp\<close>,
  \<open>mini-ics/src/protocol.cpp\<close>): message types and status codes, the 64-byte header, its
  byte-by-byte little-endian serialisation into a zeroed buffer, the validating parser with its
  error codes, and the header builder. An enum with a fixed underlying type can hold any value
  of that type, so the two wire enums have one extra constructor for the values without a name;
  the casts between the enum and its underlying integer are functions.
  The theorems relate the imperative routines to the layout table of \<open>protocol-v2.md\<close> and
  show that parsing and printing are inverse to each other.
\<close>

unbundle bit_operations_syntax

section \<open>Constants, message types and status codes\<close>

definition kProtocolVersion :: u16 where "kProtocolVersion = 2"
definition kProtocolMagic :: u32 where "kProtocolMagic = 0x5343494D"
definition kHeaderSize :: nat where "kHeaderSize = 64"
definition kMaxPayloadSize :: u32 where "kMaxPayloadSize = 16 * 1024 * 1024"

datatype MessageType =
    kHello | kHelloAck | kMmioReadReq | kMmioReadRsp | kMmioWriteReq | kMmioWriteRsp
  | kDmaReadReq | kDmaReadRsp | kDmaWriteReq | kDmaWriteRsp | kMsiX | kResetReq | kResetRsp
  | kError | kShutdown | OtherMessageType u16

fun u16_of_MessageType :: "MessageType \<Rightarrow> u16" where
  "u16_of_MessageType kHello = 1"
| "u16_of_MessageType kHelloAck = 2"
| "u16_of_MessageType kMmioReadReq = 3"
| "u16_of_MessageType kMmioReadRsp = 4"
| "u16_of_MessageType kMmioWriteReq = 5"
| "u16_of_MessageType kMmioWriteRsp = 6"
| "u16_of_MessageType kDmaReadReq = 7"
| "u16_of_MessageType kDmaReadRsp = 8"
| "u16_of_MessageType kDmaWriteReq = 9"
| "u16_of_MessageType kDmaWriteRsp = 10"
| "u16_of_MessageType kMsiX = 11"
| "u16_of_MessageType kResetReq = 12"
| "u16_of_MessageType kResetRsp = 13"
| "u16_of_MessageType kError = 14"
| "u16_of_MessageType kShutdown = 15"
| "u16_of_MessageType (OtherMessageType w) = w"

definition MessageType_of_u16 :: "u16 \<Rightarrow> MessageType" where
  "MessageType_of_u16 w =
     (if w = 1 then kHello else if w = 2 then kHelloAck else if w = 3 then kMmioReadReq
      else if w = 4 then kMmioReadRsp else if w = 5 then kMmioWriteReq
      else if w = 6 then kMmioWriteRsp else if w = 7 then kDmaReadReq
      else if w = 8 then kDmaReadRsp else if w = 9 then kDmaWriteReq
      else if w = 10 then kDmaWriteRsp else if w = 11 then kMsiX
      else if w = 12 then kResetReq else if w = 13 then kResetRsp
      else if w = 14 then kError else if w = 15 then kShutdown else OtherMessageType w)"

fun ToString_MessageType :: "MessageType \<Rightarrow> string" where
  "ToString_MessageType kHello = ''HELLO''"
| "ToString_MessageType kHelloAck = ''HELLO_ACK''"
| "ToString_MessageType kMmioReadReq = ''MMIO_READ_REQ''"
| "ToString_MessageType kMmioReadRsp = ''MMIO_READ_RSP''"
| "ToString_MessageType kMmioWriteReq = ''MMIO_WRITE_REQ''"
| "ToString_MessageType kMmioWriteRsp = ''MMIO_WRITE_RSP''"
| "ToString_MessageType kDmaReadReq = ''DMA_READ_REQ''"
| "ToString_MessageType kDmaReadRsp = ''DMA_READ_RSP''"
| "ToString_MessageType kDmaWriteReq = ''DMA_WRITE_REQ''"
| "ToString_MessageType kDmaWriteRsp = ''DMA_WRITE_RSP''"
| "ToString_MessageType kMsiX = ''MSI_X''"
| "ToString_MessageType kResetReq = ''RESET_REQ''"
| "ToString_MessageType kResetRsp = ''RESET_RSP''"
| "ToString_MessageType kError = ''ERROR''"
| "ToString_MessageType kShutdown = ''SHUTDOWN''"
| "ToString_MessageType (OtherMessageType w) = ''UNKNOWN('' @ dec_string (unat w) @ '')''"

datatype StatusCode =
    kSuccess | kErrorGeneric | kErrorBadMagic | kErrorBadVersion | kErrorBadLength
  | kErrorTimeout | kErrorOutOfBounds | kErrorInvalidAddress | kErrorNotConnected
  | kErrorDisconnected | kErrorUnknownTransaction | kErrorUnsupported | OtherStatusCode u32

fun u32_of_StatusCode :: "StatusCode \<Rightarrow> u32" where
  "u32_of_StatusCode kSuccess = 0"
| "u32_of_StatusCode kErrorGeneric = 1"
| "u32_of_StatusCode kErrorBadMagic = 2"
| "u32_of_StatusCode kErrorBadVersion = 3"
| "u32_of_StatusCode kErrorBadLength = 4"
| "u32_of_StatusCode kErrorTimeout = 5"
| "u32_of_StatusCode kErrorOutOfBounds = 6"
| "u32_of_StatusCode kErrorInvalidAddress = 7"
| "u32_of_StatusCode kErrorNotConnected = 8"
| "u32_of_StatusCode kErrorDisconnected = 9"
| "u32_of_StatusCode kErrorUnknownTransaction = 10"
| "u32_of_StatusCode kErrorUnsupported = 11"
| "u32_of_StatusCode (OtherStatusCode w) = w"

definition StatusCode_of_u32 :: "u32 \<Rightarrow> StatusCode" where
  "StatusCode_of_u32 w =
     (if w = 0 then kSuccess else if w = 1 then kErrorGeneric else if w = 2 then kErrorBadMagic
      else if w = 3 then kErrorBadVersion else if w = 4 then kErrorBadLength
      else if w = 5 then kErrorTimeout else if w = 6 then kErrorOutOfBounds
      else if w = 7 then kErrorInvalidAddress else if w = 8 then kErrorNotConnected
      else if w = 9 then kErrorDisconnected else if w = 10 then kErrorUnknownTransaction
      else if w = 11 then kErrorUnsupported else OtherStatusCode w)"

fun ToString_StatusCode :: "StatusCode \<Rightarrow> string" where
  "ToString_StatusCode kSuccess = ''SUCCESS''"
| "ToString_StatusCode kErrorGeneric = ''ERROR_GENERIC''"
| "ToString_StatusCode kErrorBadMagic = ''ERROR_BAD_MAGIC''"
| "ToString_StatusCode kErrorBadVersion = ''ERROR_BAD_VERSION''"
| "ToString_StatusCode kErrorBadLength = ''ERROR_BAD_LENGTH''"
| "ToString_StatusCode kErrorTimeout = ''ERROR_TIMEOUT''"
| "ToString_StatusCode kErrorOutOfBounds = ''ERROR_OUT_OF_BOUNDS''"
| "ToString_StatusCode kErrorInvalidAddress = ''ERROR_INVALID_ADDRESS''"
| "ToString_StatusCode kErrorNotConnected = ''ERROR_NOT_CONNECTED''"
| "ToString_StatusCode kErrorDisconnected = ''ERROR_DISCONNECTED''"
| "ToString_StatusCode kErrorUnknownTransaction = ''ERROR_UNKNOWN_TRANSACTION''"
| "ToString_StatusCode kErrorUnsupported = ''ERROR_UNSUPPORTED''"
| "ToString_StatusCode (OtherStatusCode w) = ''UNKNOWN_STATUS('' @ dec_string (unat w) @ '')''"

definition kFlagNone :: u16 where "kFlagNone = 0"
definition kFlagIsResponse :: u16 where "kFlagIsResponse = 1"

datatype CodecError = kNone | kBadMagic | kBadVersion | kBadHeaderLength | kBadPayloadLength | kTruncated

fun ToString_CodecError :: "CodecError \<Rightarrow> string" where
  "ToString_CodecError kNone = ''NONE''"
| "ToString_CodecError kBadMagic = ''BAD_MAGIC''"
| "ToString_CodecError kBadVersion = ''BAD_VERSION''"
| "ToString_CodecError kBadHeaderLength = ''BAD_HEADER_LENGTH''"
| "ToString_CodecError kBadPayloadLength = ''BAD_PAYLOAD_LENGTH''"
| "ToString_CodecError kTruncated = ''TRUNCATED''"

text \<open>
  \<open>DeserializeHeader\<close> returns an empty optional and stores the error, or returns the header and
  stores \<open>kNone\<close>; the pair is modelled as a sum, with \<open>Inl\<close> for the stored error.
\<close>

section \<open>Headers and messages\<close>

record Header =
  magic :: u32
  version :: u16
  msg_type :: u16
  flags :: u16
  header_len :: u16
  payload_len :: u32
  txn_id :: u64
  sim_timestamp :: u64
  address :: u64
  byte_enable :: u64
  status :: u32
  reserved :: u32
  transfer_len :: u32
  reserved2 :: u32

definition Type :: "Header \<Rightarrow> MessageType" where
  "Type h = MessageType_of_u16 (msg_type h)"

definition Status :: "Header \<Rightarrow> StatusCode" where
  "Status h = StatusCode_of_u32 (status h)"

record Message =
  header :: Header
  payload :: bytes

section \<open>Serialisation\<close>

definition PutU16 :: "bytes \<Rightarrow> nat \<Rightarrow> u16 \<Rightarrow> bytes" where
  "PutU16 dst p v = dst[p := ucast (v AND 0xFF), p + 1 := ucast (drop_bit 8 v AND 0xFF)]"

definition PutU32 :: "bytes \<Rightarrow> nat \<Rightarrow> u32 \<Rightarrow> bytes" where
  "PutU32 dst p v =
     dst[p := ucast (v AND 0xFF), p + 1 := ucast (drop_bit 8 v AND 0xFF),
         p + 2 := ucast (drop_bit 16 v AND 0xFF), p + 3 := ucast (drop_bit 24 v AND 0xFF)]"

definition PutU64 :: "bytes \<Rightarrow> nat \<Rightarrow> u64 \<Rightarrow> bytes" where
  "PutU64 dst p v = fold (\<lambda>i d. d[p + i := ucast (drop_bit (8 * i) v AND 0xFF)]) [0..<8] dst"

definition GetU16 :: "bytes \<Rightarrow> nat \<Rightarrow> u16" where
  "GetU16 src p = ucast (src ! p) OR push_bit 8 (ucast (src ! (p + 1)))"

definition GetU32 :: "bytes \<Rightarrow> nat \<Rightarrow> u32" where
  "GetU32 src p =
     ucast (src ! p) OR push_bit 8 (ucast (src ! (p + 1))) OR
     push_bit 16 (ucast (src ! (p + 2))) OR push_bit 24 (ucast (src ! (p + 3)))"

definition GetU64 :: "bytes \<Rightarrow> nat \<Rightarrow> u64" where
  "GetU64 src p = fold (\<lambda>i v. v OR push_bit (8 * i) (ucast (src ! (p + i)))) [0..<8] 0"

definition SerializeHeader :: "Header \<Rightarrow> bytes" where
  "SerializeHeader h =
     (let buf = replicate kHeaderSize 0;
          buf = PutU32 buf 0 (magic h);
          buf = PutU16 buf 4 (version h);
          buf = PutU16 buf 6 (msg_type h);
          buf = PutU16 buf 8 (flags h);
          buf = PutU16 buf 10 (header_len h);
          buf = PutU32 buf 12 (payload_len h);
          buf = PutU64 buf 16 (txn_id h);
          buf = PutU64 buf 24 (sim_timestamp h);
          buf = PutU64 buf 32 (address h);
          buf = PutU64 buf 40 (byte_enable h);
          buf = PutU32 buf 48 (status h);
          buf = PutU32 buf 52 (reserved h);
          buf = PutU32 buf 56 (transfer_len h);
          buf = PutU32 buf 60 (reserved2 h)
      in buf)"

definition DeserializeHeader :: "bytes \<Rightarrow> CodecError + Header" where
  "DeserializeHeader data =
     (if length data < kHeaderSize then Inl kTruncated
      else
        let h = \<lparr> magic = GetU32 data 0, version = GetU16 data 4, msg_type = GetU16 data 6,
                  flags = GetU16 data 8, header_len = GetU16 data 10,
                  payload_len = GetU32 data 12, txn_id = GetU64 data 16,
                  sim_timestamp = GetU64 data 24, address = GetU64 data 32,
                  byte_enable = GetU64 data 40, status = GetU32 data 48,
                  reserved = GetU32 data 52, transfer_len = GetU32 data 56,
                  reserved2 = GetU32 data 60 \<rparr>
        in if magic h \<noteq> kProtocolMagic then Inl kBadMagic
           else if version h \<noteq> kProtocolVersion then Inl kBadVersion
           else if unat (header_len h) \<noteq> kHeaderSize then Inl kBadHeaderLength
           else if payload_len h > kMaxPayloadSize then Inl kBadPayloadLength
           else Inr h)"

definition SerializeMessage :: "Header \<Rightarrow> bytes \<Rightarrow> bytes" where
  "SerializeMessage h pl = SerializeHeader h @ pl"

definition MakeHeader ::
  "MessageType \<Rightarrow> u64 \<Rightarrow> u64 \<Rightarrow> u64 \<Rightarrow> StatusCode \<Rightarrow> u64 \<Rightarrow> u32 \<Rightarrow> u16 \<Rightarrow> u32 \<Rightarrow> Header" where
  "MakeHeader type txn addr be st ts plen flgs tlen =
     (let tlen = (if tlen = 0
                  then if type = kMmioReadReq \<and> plen = 0 then of_nat (popcount be) else plen
                  else tlen)
      in \<lparr> magic = kProtocolMagic, version = kProtocolVersion,
           msg_type = u16_of_MessageType type, flags = flgs, header_len = of_nat kHeaderSize,
           payload_len = plen, txn_id = txn, sim_timestamp = ts, address = addr,
           byte_enable = be, status = u32_of_StatusCode st, reserved = 0,
           transfer_len = tlen, reserved2 = 0 \<rparr>)"

section \<open>Specification-level notions\<close>

definition valid_header :: "Header \<Rightarrow> bool" where
  "valid_header h \<longleftrightarrow> magic h = kProtocolMagic \<and> version h = kProtocolVersion \<and>
     header_len h = 64 \<and> payload_len h \<le> kMaxPayloadSize"

definition valid_message :: "Message \<Rightarrow> bool" where
  "valid_message m \<longleftrightarrow> valid_header (header m) \<and> unat (payload_len (header m)) = length (payload m)"

definition wire_layout :: "Header \<Rightarrow> bytes" where
  "wire_layout h =
     le_bytes 4 (magic h) @ le_bytes 2 (version h) @ le_bytes 2 (msg_type h) @
     le_bytes 2 (flags h) @ le_bytes 2 (header_len h) @ le_bytes 4 (payload_len h) @
     le_bytes 8 (txn_id h) @ le_bytes 8 (sim_timestamp h) @ le_bytes 8 (address h) @
     le_bytes 8 (byte_enable h) @ le_bytes 4 (status h) @ le_bytes 4 (reserved h) @
     le_bytes 4 (transfer_len h) @ le_bytes 4 (reserved2 h)"

section \<open>The Put and Get routines are the reference codec\<close>

lemma PutU16_overwrite [byte_simps]:
  "p + 2 \<le> length buf \<Longrightarrow> PutU16 buf p v = overwrite buf p (le_bytes 2 v)"
  using byte_of_mask [of 0 v] byte_of_mask [of 1 v] overwrite_update [of p "[byte_of v 0]" buf "byte_of v 1"]
  by (simp add: PutU16_def overwrite_single le_bytes_def upt_conv_Cons)

lemma PutU64_overwrite [byte_simps]:
  "p + 8 \<le> length buf \<Longrightarrow> PutU64 buf p v = overwrite buf p (le_bytes 8 v)"
  unfolding PutU64_def le_bytes_def byte_of_mask by (rule fold_update_overwrite)

lemma PutU32_fold: "PutU32 buf p v = fold (\<lambda>i d. d[p + i := byte_of v i]) [0..<4] buf"
  using byte_of_mask [of 0 v] byte_of_mask [of 1 v] byte_of_mask [of 2 v] byte_of_mask [of 3 v]
  by (simp add: PutU32_def upt_conv_Cons numeral_2_eq_2 numeral_3_eq_3)

lemma PutU32_overwrite [byte_simps]:
  "p + 4 \<le> length buf \<Longrightarrow> PutU32 buf p v = overwrite buf p (le_bytes 4 v)"
  unfolding PutU32_fold le_bytes_def by (rule fold_update_overwrite)

lemma take_drop_nth4:
  assumes "p + 4 \<le> length xs"
  shows "take 4 (drop p xs) = [xs ! p, xs ! (p + 1), xs ! (p + 2), xs ! (p + 3)]"
  using assms by (intro nth_equalityI) (auto simp: less_Suc_eq numeral_eq_Suc)

lemma take_drop_nth2: "p + 2 \<le> length xs \<Longrightarrow> take 2 (drop p xs) = [xs ! p, xs ! (p + 1)]"
  by (intro nth_equalityI) (auto simp: less_Suc_eq numeral_eq_Suc)

lemma GetU16_le_value: "p + 2 \<le> length src \<Longrightarrow> GetU16 src p = le_value (take 2 (drop p src))"
  by (simp add: GetU16_def take_drop_nth2)

lemma GetU32_le_value: "p + 4 \<le> length src \<Longrightarrow> GetU32 src p = le_value (take 4 (drop p src))"
  by (simp add: GetU32_def take_drop_nth4 push_bit_or or.assoc)

lemma fold_or_le_value:
  "fold (\<lambda>i v. v OR push_bit (8 * i) (ucast (bs ! i))) [0..<length bs] acc
     = acc OR (le_value bs :: 'a::len word)"
proof (induction bs arbitrary: acc rule: rev_induct)
  case Nil
  then show ?case by simp
next
  case (snoc b bs)
  have eq: "fold (\<lambda>i v. v OR push_bit (8 * i) (ucast ((bs @ [b]) ! i))) [0..<length bs] acc
      = fold (\<lambda>i v. v OR push_bit (8 * i) (ucast (bs ! i))) [0..<length bs] acc"
    by (rule fold_cong) (simp_all add: nth_append)
  have "(le_value (bs @ [b]) :: 'a word) = le_value bs OR push_bit (8 * length bs) (ucast b)"
    by (induction bs) (simp_all add: push_bit_or or.assoc add.commute)
  with eq snoc.IH show ?case by (simp add: nth_append or.assoc)
qed

lemma GetU64_le_value: 
  assumes "p + 8 \<le> length src"
  shows "GetU64 src p = le_value (take 8 (drop p src))"
proof -
  have "fold (\<lambda>i v. v OR push_bit (8 * i) (ucast (src ! (p + i)))) [0..<8] (0::u64)
      = fold (\<lambda>i v. v OR push_bit (8 * i) (ucast (take 8 (drop p src) ! i))) [0..<8] 0"
    using assms by (intro fold_cong) simp_all
  also have "\<dots> = le_value (take 8 (drop p src))"
    using fold_or_le_value [of "take 8 (drop p src)" "0::u64"] assms by simp
  finally show ?thesis by (simp add: GetU64_def)
qed

lemmas Get_le_value = GetU16_le_value GetU32_le_value GetU64_le_value

lemma overwrite_zeros:
  "length xs = p \<Longrightarrow> length bs \<le> n \<Longrightarrow>
     overwrite (xs @ replicate n z) p bs = (xs @ bs) @ replicate (n - length bs) z"
  by (simp add: overwrite_def)

lemma overwrite_zeros_start:
  "length bs \<le> n \<Longrightarrow> overwrite (replicate n z) 0 bs = bs @ replicate (n - length bs) z"
  by (simp add: overwrite_def)

lemma SerializeHeader_layout: "SerializeHeader h = wire_layout h"
  unfolding SerializeHeader_def wire_layout_def Let_def kHeaderSize_def
  by (simp add: byte_simps overwrite_zeros overwrite_zeros_start del: append_assoc)

lemma length_SerializeHeader [simp]: "length (SerializeHeader h) = 64"
  by (simp add: SerializeHeader_layout wire_layout_def)

lemma take_SerializeHeader [simp]: "take 64 (SerializeHeader h @ xs) = SerializeHeader h"
  by simp

text \<open>The bytes of a parsed header, cut at the offsets of the layout table.\<close>

lemma le_bytes_le_value_take:
  "p + n \<le> length xs \<Longrightarrow> 8 * n \<le> LENGTH('a::len) \<Longrightarrow>
     le_bytes n (le_value (take n (drop p xs)) :: 'a word) = take n (drop p xs)"
  using le_bytes_le_value [of "take n (drop p xs)", where 'a = 'a] by simp

lemma parse_layout:
  "GetU32 (wire_layout h) 0 = magic h" "GetU16 (wire_layout h) 4 = version h"
  "GetU16 (wire_layout h) 6 = msg_type h" "GetU16 (wire_layout h) 8 = flags h"
  "GetU16 (wire_layout h) 10 = header_len h" "GetU32 (wire_layout h) 12 = payload_len h"
  "GetU64 (wire_layout h) 16 = txn_id h" "GetU64 (wire_layout h) 24 = sim_timestamp h"
  "GetU64 (wire_layout h) 32 = address h" "GetU64 (wire_layout h) 40 = byte_enable h"
  "GetU32 (wire_layout h) 48 = status h" "GetU32 (wire_layout h) 52 = reserved h"
  "GetU32 (wire_layout h) 56 = transfer_len h" "GetU32 (wire_layout h) 60 = reserved2 h"
  by (simp_all add: Get_le_value wire_layout_def le_value_le_bytes)

lemma Get_append:
  "p + 2 \<le> length xs \<Longrightarrow> GetU16 (xs @ ys) p = GetU16 xs p"
  "p + 4 \<le> length xs \<Longrightarrow> GetU32 (xs @ ys) p = GetU32 xs p"
  "p + 8 \<le> length xs \<Longrightarrow> GetU64 (xs @ ys) p = GetU64 xs p"
  by (simp_all add: Get_le_value)

lemma unat_header_len: "unat (w :: u16) = kHeaderSize \<longleftrightarrow> w = 64"
  by (simp add: kHeaderSize_def word_unat_eq_iff)

lemma DeserializeHeader_append:
  assumes "valid_header h"
  shows "DeserializeHeader (SerializeHeader h @ rest) = Inr h"
proof -
  have len: "length (wire_layout h) = 64" by (metis SerializeHeader_layout length_SerializeHeader)
  show ?thesis
    using assms
    by (simp add: DeserializeHeader_def SerializeHeader_layout Get_append len parse_layout Let_def
        valid_header_def kHeaderSize_def not_less)
qed

lemma wire_layout_parsed:
  assumes "64 \<le> length data"
  shows "wire_layout \<lparr> magic = GetU32 data 0, version = GetU16 data 4, msg_type = GetU16 data 6,
           flags = GetU16 data 8, header_len = GetU16 data 10, payload_len = GetU32 data 12,
           txn_id = GetU64 data 16, sim_timestamp = GetU64 data 24, address = GetU64 data 32,
           byte_enable = GetU64 data 40, status = GetU32 data 48, reserved = GetU32 data 52,
           transfer_len = GetU32 data 56, reserved2 = GetU32 data 60 \<rparr> = take 64 data"
proof -
  have "take 64 data = take 4 (drop 0 data) @ take 2 (drop 4 data) @ take 2 (drop 6 data) @
     take 2 (drop 8 data) @ take 2 (drop 10 data) @ take 4 (drop 12 data) @ take 8 (drop 16 data) @
     take 8 (drop 24 data) @ take 8 (drop 32 data) @ take 8 (drop 40 data) @ take 4 (drop 48 data) @
     take 4 (drop 52 data) @ take 4 (drop 56 data) @ take 4 (drop 60 data)"
    by (simp add: append_assoc [symmetric] take_add [symmetric] del: append_assoc)
  then show ?thesis using assms
    by (simp add: wire_layout_def Get_le_value le_bytes_le_value_take
        le_bytes_le_value_take [where p = 0, simplified])
qed

section \<open>Enum casts\<close>

lemma u16_of_MessageType_of_u16 [simp]: "u16_of_MessageType (MessageType_of_u16 w) = w"
  by (simp add: MessageType_of_u16_def)

lemma u32_of_StatusCode_of_u32 [simp]: "u32_of_StatusCode (StatusCode_of_u32 w) = w"
  by (simp add: StatusCode_of_u32_def)

lemma MessageType_of_u16_of_MessageType [simp]:
  "MessageType_of_u16 (u16_of_MessageType t) = t" if "t \<notin> range OtherMessageType"
  using that by (cases t) (auto simp: MessageType_of_u16_def)

lemma StatusCode_of_u32_of_StatusCode [simp]:
  "StatusCode_of_u32 (u32_of_StatusCode st) = st" if "st \<notin> range OtherStatusCode"
  using that by (cases st) (auto simp: StatusCode_of_u32_def)

lemma MessageType_of_u16_inject [simp]: "MessageType_of_u16 v = MessageType_of_u16 w \<longleftrightarrow> v = w"
  by (metis u16_of_MessageType_of_u16)

section \<open>Header builder\<close>

lemma MakeHeader_sel [simp]:
  "magic (MakeHeader ty tx ad be st ts pl fl xl) = kProtocolMagic"
  "version (MakeHeader ty tx ad be st ts pl fl xl) = kProtocolVersion"
  "msg_type (MakeHeader ty tx ad be st ts pl fl xl) = u16_of_MessageType ty"
  "flags (MakeHeader ty tx ad be st ts pl fl xl) = fl"
  "header_len (MakeHeader ty tx ad be st ts pl fl xl) = 64"
  "payload_len (MakeHeader ty tx ad be st ts pl fl xl) = pl"
  "txn_id (MakeHeader ty tx ad be st ts pl fl xl) = tx"
  "sim_timestamp (MakeHeader ty tx ad be st ts pl fl xl) = ts"
  "address (MakeHeader ty tx ad be st ts pl fl xl) = ad"
  "byte_enable (MakeHeader ty tx ad be st ts pl fl xl) = be"
  "status (MakeHeader ty tx ad be st ts pl fl xl) = u32_of_StatusCode st"
  by (simp_all add: MakeHeader_def kHeaderSize_def)

lemma transfer_len_MakeHeader:
  "transfer_len (MakeHeader ty tx ad be st ts pl fl xl) =
     (if xl \<noteq> 0 then xl
      else if ty = kMmioReadReq \<and> pl = 0 then of_nat (popcount be) else pl)"
  by (simp add: MakeHeader_def)

lemma MakeHeader_valid [simp]:
  "valid_header (MakeHeader ty tx ad be st ts pl fl xl) \<longleftrightarrow> pl \<le> kMaxPayloadSize"
  by (simp add: valid_header_def)

lemma Type_MakeHeader [simp]:
  "ty \<notin> range OtherMessageType \<Longrightarrow> Type (MakeHeader ty tx ad be st ts pl fl xl) = ty"
  by (simp add: Type_def)

lemma Status_MakeHeader [simp]:
  "st \<notin> range OtherStatusCode \<Longrightarrow> Status (MakeHeader ty tx ad be st ts pl fl xl) = st"
  by (simp add: Status_def)

lemma payload_fits: 
  assumes "length pl \<le> 16 * 1024 * 1024"
  shows "unat (of_nat (length pl) :: u32) = length pl" "(of_nat (length pl) :: u32) \<le> kMaxPayloadSize"
proof -
  show u: "unat (of_nat (length pl) :: u32) = length pl"
    using assms by (simp add: unat_of_nat)
  show "(of_nat (length pl) :: u32) \<le> kMaxPayloadSize"
    using assms by (simp only: word_le_nat_alt u kMaxPayloadSize_def) simp
qed

lemma DeserializeHeader_Inr:
  assumes "DeserializeHeader data = Inr h"
  shows "64 \<le> length data" "valid_header h" "SerializeHeader h = take 64 data"
proof -
  show len: "64 \<le> length data"
    using assms by (auto simp: DeserializeHeader_def kHeaderSize_def split: if_splits)
  with assms show "valid_header h"
    by (auto simp: DeserializeHeader_def valid_header_def unat_header_len Let_def split: if_splits)
  from assms have "wire_layout h = take 64 data"
    using wire_layout_parsed [OF len] by (auto simp: DeserializeHeader_def Let_def split: if_splits)
  then show "SerializeHeader h = take 64 data" by (simp add: SerializeHeader_layout)
qed

lemma valid_header_payload_bound:
  "valid_header h \<Longrightarrow> unat (payload_len h) \<le> 16 * 1024 * 1024"
  by (simp add: valid_header_def word_le_nat_alt kMaxPayloadSize_def)

lemma wire_constants:
  "le_bytes 4 kProtocolMagic = [0x4D, 0x49, 0x43, 0x53]" "le_bytes 2 kProtocolVersion = [2, 0]"
  "le_bytes 2 (64 :: u16) = [64, 0]"
  by (simp_all add: kProtocolMagic_def kProtocolVersion_def le_bytes_def byte_of_def upt_conv_Cons)

section \<open>Properties of the wire protocol\<close>

text \<open>
  C11: parsing is a left inverse of printing. Every header with the protocol's magic, version,
  header length and a payload length within 16 MiB that \<open>SerializeHeader\<close> writes, with any
  bytes behind it, is read back by \<open>DeserializeHeader\<close> field for field.
\<close>

theorem header_roundtrip:
  "valid_header h \<Longrightarrow> DeserializeHeader (SerializeHeader h @ rest) = Inr h"
  by (rule DeserializeHeader_append)

theorem header_roundtrip_witness:
  "DeserializeHeader (SerializeHeader (MakeHeader kDmaReadReq 7 0x100000 0 kSuccess 160 0 kFlagNone 64) @ [1, 2])
     = Inr (MakeHeader kDmaReadReq 7 0x100000 0 kSuccess 160 0 kFlagNone 64)"
  by (rule header_roundtrip) (simp add: kMaxPayloadSize_def)

text \<open>
  C12: parsing accepts nothing but canonical headers. If \<open>DeserializeHeader\<close> succeeds on a
  byte string, the string starts with exactly the 64 bytes that \<open>SerializeHeader\<close> prints for
  the parsed header, and that header carries the fixed fields and a bounded payload length; so two
  byte strings with the same parse agree on their first 64 bytes.
\<close>

theorem header_parse_canonical:
  "DeserializeHeader data = Inr h \<Longrightarrow>
     64 \<le> length data \<and> SerializeHeader h = take 64 data \<and> valid_header h \<and>
     unat (payload_len h) \<le> 16 * 1024 * 1024"
  using DeserializeHeader_Inr [of data h] valid_header_payload_bound [of h] by simp

theorem header_parse_canonical_witness:
  "SerializeHeader (MakeHeader kHello 1 0 0 kSuccess 100 0 kFlagNone 0)
     = take 64 (SerializeHeader (MakeHeader kHello 1 0 0 kSuccess 100 0 kFlagNone 0) @ [9])"
proof -
  have "DeserializeHeader (SerializeHeader (MakeHeader kHello 1 0 0 kSuccess 100 0 kFlagNone 0) @ [9])
      = Inr (MakeHeader kHello 1 0 0 kSuccess 100 0 kFlagNone 0)"
    by (rule DeserializeHeader_append) simp
  from header_parse_canonical [OF this] show ?thesis by blast
qed

text \<open>
  The bytes of a header are the layout table of \<open>protocol-v2.md\<close>: the fourteen fields in
  order, each little-endian in 4, 2, 2, 2, 2, 4, 8, 8, 8, 8, 4, 4, 4 and 4 bytes, 64 in all, whatever
  the in-memory struct looks like.
\<close>

theorem header_wire_layout:
  "SerializeHeader h = wire_layout h \<and> length (SerializeHeader h) = 64"
  by (simp only: SerializeHeader_layout length_SerializeHeader [unfolded SerializeHeader_layout])

text \<open>
  The parser's verdict in terms of the received bytes, every branch. A string under 64 bytes
  is truncated; otherwise the first of these that fails names the error: bytes 0 to 3 spell
  \<open>MICS\<close>, bytes 4 and 5 are the version 2, bytes 10 and 11 the header length 64, and the
  little-endian number in bytes 12 to 15 is at most 16 MiB. If none fails the header is accepted.
\<close>

theorem header_parse_verdict:
  "case DeserializeHeader data of
     Inl kNone \<Rightarrow> False
   | Inl kTruncated \<Rightarrow> length data < 64
   | Inl kBadMagic \<Rightarrow> 64 \<le> length data \<and> take 4 data \<noteq> [0x4D, 0x49, 0x43, 0x53]
   | Inl kBadVersion \<Rightarrow> 64 \<le> length data \<and> take 4 data = [0x4D, 0x49, 0x43, 0x53] \<and>
       take 2 (drop 4 data) \<noteq> [2, 0]
   | Inl kBadHeaderLength \<Rightarrow> 64 \<le> length data \<and> take 6 data = [0x4D, 0x49, 0x43, 0x53, 2, 0] \<and>
       take 2 (drop 10 data) \<noteq> [64, 0]
   | Inl kBadPayloadLength \<Rightarrow> 64 \<le> length data \<and> take 6 data = [0x4D, 0x49, 0x43, 0x53, 2, 0] \<and>
       take 2 (drop 10 data) = [64, 0] \<and> le_value (take 4 (drop 12 data)) > kMaxPayloadSize
   | Inr h \<Rightarrow> 64 \<le> length data \<and> take 6 data = [0x4D, 0x49, 0x43, 0x53, 2, 0] \<and>
       take 2 (drop 10 data) = [64, 0] \<and> le_value (take 4 (drop 12 data)) \<le> kMaxPayloadSize"
proof (cases "64 \<le> length data")
  case True
  have m: "GetU32 data 0 = kProtocolMagic \<longleftrightarrow> take 4 data = [0x4D, 0x49, 0x43, 0x53]"
    using le_value_eq_iff [of "take 4 data" 4 kProtocolMagic] True
    by (simp add: GetU32_le_value wire_constants)
  have v: "GetU16 data 4 = kProtocolVersion \<longleftrightarrow> take 2 (drop 4 data) = [2, 0]"
    using le_value_eq_iff [of "take 2 (drop 4 data)" 2 kProtocolVersion] True
    by (simp add: GetU16_le_value wire_constants)
  have l: "GetU16 data 10 = 64 \<longleftrightarrow> take 2 (drop 10 data) = [64, 0]"
    using le_value_eq_iff [of "take 2 (drop 10 data)" 2 "64::u16"] True
    by (simp add: GetU16_le_value wire_constants)
  have six: "take 6 data = [0x4D, 0x49, 0x43, 0x53, 2, 0] \<longleftrightarrow>
      take 4 data = [0x4D, 0x49, 0x43, 0x53] \<and> take 2 (drop 4 data) = [2, 0]"
    using take_add [of 4 2 data] append_eq_append_conv [of "take 4 data" "[0x4D, 0x49, 0x43, 0x53]"
      "take 2 (drop 4 data)" "[2, 0]"] True by simp
  show ?thesis using True
    by (simp add: DeserializeHeader_def kHeaderSize_def Let_def m v l six not_less
        GetU32_le_value [of 12] unat_header_len [unfolded kHeaderSize_def] split: sum.split)
next
  case False
  then show ?thesis by (simp add: DeserializeHeader_def kHeaderSize_def)
qed

text \<open>
  What the builder makes, the peer reads. For a payload of at most 16 MiB and a named message
  type and status, the serialised message parses to a header with that type, status, transaction
  id, address, byte enables, timestamp and flags, announces exactly the payload's length, and
  leaves exactly the payload behind its 64 bytes.
\<close>

theorem message_builder_roundtrip:
  assumes "length pl \<le> 16 * 1024 * 1024" "ty \<notin> range OtherMessageType" "st \<notin> range OtherStatusCode"
  shows "\<exists>h. DeserializeHeader (SerializeMessage (MakeHeader ty tx ad be st ts (of_nat (length pl)) fl xl) pl) = Inr h
      \<and> Type h = ty \<and> Status h = st \<and> txn_id h = tx \<and> address h = ad \<and> byte_enable h = be
      \<and> sim_timestamp h = ts \<and> flags h = fl \<and> unat (payload_len h) = length pl
      \<and> drop 64 (SerializeMessage (MakeHeader ty tx ad be st ts (of_nat (length pl)) fl xl) pl) = pl"
proof -
  let ?h = "MakeHeader ty tx ad be st ts (of_nat (length pl)) fl xl"
  have "DeserializeHeader (SerializeHeader ?h @ pl) = Inr ?h"
    using payload_fits [OF assms(1)] by (intro DeserializeHeader_append) simp
  then show ?thesis using assms(2,3) payload_fits [OF assms(1)]
    by (simp add: SerializeMessage_def)
qed

theorem message_builder_roundtrip_witness:
  "\<exists>h. DeserializeHeader (SerializeMessage (MakeHeader kDmaWriteReq 3 0x101000 0 kSuccess 205 (of_nat (length [0xC0, 0xC1])) kFlagNone 2) [0xC0, 0xC1]) = Inr h
      \<and> Type h = kDmaWriteReq \<and> txn_id h = 3"
  using message_builder_roundtrip [where pl = "[0xC0, 0xC1]" and ty = kDmaWriteReq and st = kSuccess
      and tx = 3 and ad = "0x101000" and be = 0 and ts = 205 and fl = kFlagNone and xl = 2]
  by auto

text \<open>
  Log names identify what they name. Two message types with the same printed name are equal,
  also among the unnamed values printed as \<open>UNKNOWN(n)\<close>, and likewise for status codes.
\<close>

theorem ToString_injective:
  "(ToString_MessageType s = ToString_MessageType t \<longleftrightarrow> s = t) \<and>
   (ToString_StatusCode a = ToString_StatusCode b \<longleftrightarrow> a = b)"
proof
  show "ToString_MessageType s = ToString_MessageType t \<longleftrightarrow> s = t"
    by (cases s; cases t; simp add: word_unat_eq_iff)
  show "ToString_StatusCode a = ToString_StatusCode b \<longleftrightarrow> a = b"
    by (cases a; cases b; simp add: word_unat_eq_iff)
qed

end
