(* ===== verification/Transaction.thy ===== *)
theory Transaction
  imports Protocol
begin

text \<open>
  Request/response correlation and message hand-over
  (\<open>mini-ics/include/mini_ics/transaction.hpp\<close>): the transaction-id counter, the blocking queue
  between the socket thread and the simulator thread, and the table of pending requests.

  Blocking is modelled with the interference made explicit. \<open>std::condition_variable::wait_for\<close>
  with a predicate re-evaluates the predicate under the lock at every wake-up (a notification, a
  spurious wake-up, or the timeout). Between two evaluations other threads perform operations:
  a wait is given the list of these batches of operations, the last of them ending with the
  timeout (\<open>cv_wait\<close>). Every theorem quantifies over all such lists, that is over all schedules.
  Each operation runs under the object's mutex, so it is one atomic step.

  The queue and the table are also used as parts of the server's state, so their blocking
  operations are defined over any state that contains one, given by a getter and a setter;
  the locale \<open>state_part\<close> states the laws of such a pair.
\<close>

section \<open>Condition variables\<close>

fun cv_wait :: "('s \<Rightarrow> bool) \<Rightarrow> ('op \<Rightarrow> 's \<Rightarrow> 's) \<Rightarrow> 'op list list \<Rightarrow> 's \<Rightarrow> bool \<times> 's" where
  "cv_wait P step [] s = (P s, s)"
| "cv_wait P step (b # bs) s = (if P s then (True, s) else cv_wait P step bs (fold step b s))"

section \<open>Transaction ids\<close>

record TransactionIdGenerator =
  next_id :: u64

definition new_TransactionIdGenerator :: "u64 \<Rightarrow> TransactionIdGenerator" where
  "new_TransactionIdGenerator start = \<lparr> next_id = start \<rparr>"

definition Next :: "TransactionIdGenerator \<Rightarrow> u64 \<times> TransactionIdGenerator" where
  "Next g = (next_id g, g\<lparr> next_id := next_id g + 1 \<rparr>)"

fun Next_n :: "nat \<Rightarrow> TransactionIdGenerator \<Rightarrow> u64 list" where
  "Next_n 0 g = []"
| "Next_n (Suc n) g = (let (t, g') = Next g in t # Next_n n g')"

section \<open>The blocking queue\<close>

record 'a BlockingQueue =
  queue :: "'a list"
  shutdown_flag :: bool

definition new_BlockingQueue :: "'a BlockingQueue" where
  "new_BlockingQueue = \<lparr> queue = [], shutdown_flag = False \<rparr>"

definition Push :: "'a \<Rightarrow> 'a BlockingQueue \<Rightarrow> 'a BlockingQueue" where
  "Push item q = q\<lparr> queue := queue q @ [item] \<rparr>"

definition TryPop :: "'a BlockingQueue \<Rightarrow> 'a option \<times> 'a BlockingQueue" where
  "TryPop q = (case queue q of [] \<Rightarrow> (None, q) | x # xs \<Rightarrow> (Some x, q\<lparr> queue := xs \<rparr>))"

definition Shutdown :: "'a BlockingQueue \<Rightarrow> 'a BlockingQueue" where
  "Shutdown q = q\<lparr> shutdown_flag := True \<rparr>"

definition Size :: "'a BlockingQueue \<Rightarrow> nat" where
  "Size q = length (queue q)"

definition Pop_in ::
  "('s \<Rightarrow> 'a BlockingQueue) \<Rightarrow> ('a BlockingQueue \<Rightarrow> 's \<Rightarrow> 's) \<Rightarrow> ('op \<Rightarrow> 's \<Rightarrow> 's) \<Rightarrow> 'op list list \<Rightarrow> 's
     \<Rightarrow> 'a option \<times> 's" where
  "Pop_in get put step bs s =
     (let (ready, s') = cv_wait (\<lambda>s. queue (get s) \<noteq> [] \<or> shutdown_flag (get s)) step bs s
      in if \<not> ready then (None, s')
         else case queue (get s') of
                [] \<Rightarrow> (None, s')
              | x # xs \<Rightarrow> (Some x, put ((get s')\<lparr> queue := xs \<rparr>) s'))"

text \<open>What other threads do to the queue while one thread waits in \<open>Pop\<close>.\<close>

datatype 'a queue_op = OpPush 'a | OpTryPop | OpShutdown

fun queue_step :: "'a queue_op \<Rightarrow> 'a BlockingQueue \<Rightarrow> 'a BlockingQueue" where
  "queue_step (OpPush x) q = Push x q"
| "queue_step OpTryPop q = snd (TryPop q)"
| "queue_step OpShutdown q = Shutdown q"

definition Pop :: "'a queue_op list list \<Rightarrow> 'a BlockingQueue \<Rightarrow> 'a option \<times> 'a BlockingQueue" where
  "Pop = Pop_in id (\<lambda>q _. q) queue_step"

text \<open>A run of queue operations, collecting what the consumers received.\<close>

fun queue_run :: "'a queue_op list \<Rightarrow> 'a BlockingQueue \<Rightarrow> 'a list \<times> 'a BlockingQueue" where
  "queue_run [] q = ([], q)"
| "queue_run (OpTryPop # ops) q =
     (let (r, q') = TryPop q; (out, q'') = queue_run ops q'
      in (case r of None \<Rightarrow> out | Some x \<Rightarrow> x # out, q''))"
| "queue_run (op # ops) q = queue_run ops (queue_step op q)"

fun pushed :: "'a queue_op list \<Rightarrow> 'a list" where
  "pushed [] = []"
| "pushed (OpPush x # ops) = x # pushed ops"
| "pushed (_ # ops) = pushed ops"

section \<open>The table of pending requests\<close>

type_synonym PendingRequestTable = "u64 \<rightharpoonup> Message option"

definition new_PendingRequestTable :: PendingRequestTable where
  "new_PendingRequestTable = Map.empty"

definition RegisterPending :: "u64 \<Rightarrow> PendingRequestTable \<Rightarrow> PendingRequestTable" where
  "RegisterPending txn pending = pending(txn \<mapsto> None)"

definition Complete :: "u64 \<Rightarrow> Message \<Rightarrow> PendingRequestTable \<Rightarrow> bool \<times> PendingRequestTable" where
  "Complete txn response pending =
     (case pending txn of None \<Rightarrow> (False, pending)
      | Some _ \<Rightarrow> (True, pending(txn \<mapsto> Some response)))"

definition WaitFor_in ::
  "('s \<Rightarrow> PendingRequestTable) \<Rightarrow> (PendingRequestTable \<Rightarrow> 's \<Rightarrow> 's) \<Rightarrow> ('op \<Rightarrow> 's \<Rightarrow> 's) \<Rightarrow> u64
     \<Rightarrow> 'op list list \<Rightarrow> 's \<Rightarrow> Message option \<times> 's" where
  "WaitFor_in get put step txn bs s =
     (if get s txn = None then (None, s)
      else
        let (arrived, s') =
              cv_wait (\<lambda>s. case get s txn of None \<Rightarrow> True | Some r \<Rightarrow> r \<noteq> None) step bs s
        in case get s' txn of
             None \<Rightarrow> (None, s')
           | Some r \<Rightarrow> (if arrived \<and> r \<noteq> None then r else None, put ((get s')(txn := None)) s'))"

definition CancelAll :: "PendingRequestTable \<Rightarrow> PendingRequestTable" where
  "CancelAll pending = Map.empty"

datatype table_op = OpRegister u64 | OpComplete u64 Message | OpErase u64 | OpCancelAll

text \<open>\<open>OpErase\<close> is another thread leaving its own \<open>WaitFor\<close>.\<close>

fun table_step :: "table_op \<Rightarrow> PendingRequestTable \<Rightarrow> PendingRequestTable" where
  "table_step (OpRegister t) p = RegisterPending t p"
| "table_step (OpComplete t m) p = snd (Complete t m p)"
| "table_step (OpErase t) p = p(t := None)"
| "table_step OpCancelAll p = CancelAll p"

definition WaitFor ::
  "u64 \<Rightarrow> table_op list list \<Rightarrow> PendingRequestTable \<Rightarrow> Message option \<times> PendingRequestTable" where
  "WaitFor = WaitFor_in id (\<lambda>p _. p) table_step"

text \<open>A response as the host sends it, for the examples.\<close>

definition sample_rsp :: "u64 \<Rightarrow> Message" where
  "sample_rsp t = \<lparr> header = MakeHeader kDmaReadRsp t 0 0 kSuccess 0 0 kFlagIsResponse 0, payload = [] \<rparr>"

section \<open>Waiting\<close>

text \<open>
  The outcome of a wait: some prefix of the interference has happened, the flag is the predicate
  in the final state, and nothing happened at all if the predicate held at once.
\<close>

lemma cv_wait_sound:
  "\<exists>bs1 bs2. bs = bs1 @ bs2 \<and> cv_wait P step bs s = (P (fold step (concat bs1) s), fold step (concat bs1) s)"
proof (induction bs arbitrary: s)
  case Nil
  show ?case by simp
next
  case (Cons b bs)
  show ?case
  proof (cases "P s")
    case True
    then show ?thesis by (intro exI [of _ "[]"] exI [of _ "b # bs"]) simp
  next
    case False
    obtain bs1 bs2 where "bs = bs1 @ bs2"
      "cv_wait P step bs (fold step b s)
         = (P (fold step (concat bs1) (fold step b s)), fold step (concat bs1) (fold step b s))"
      using Cons.IH by blast
    with False show ?thesis by (intro exI [of _ "b # bs1"] exI [of _ bs2]) simp
  qed
qed

lemma cv_wait_ready: "P s \<Longrightarrow> cv_wait P step bs s = (True, s)"
  by (cases bs) simp_all

lemma cv_wait_invariant:
  assumes "\<And>op s. op \<in> set (concat bs) \<Longrightarrow> I s \<Longrightarrow> I (step op s)" "I s"
  shows "I (snd (cv_wait P step bs s))"
proof -
  have fold: "I (fold step ops s)" if "set ops \<subseteq> set (concat bs)" "I s" for ops s
    using that
  proof (induction ops arbitrary: s)
    case (Cons op ops)
    from Cons.prems(1) have op: "op \<in> set (concat bs)" and ops: "set ops \<subseteq> set (concat bs)" by simp_all
    from assms(1) [OF op Cons.prems(2)] have "I (fold step ops (step op s))" by (rule Cons.IH [OF ops])
    then show ?case by simp
  qed simp
  obtain bs1 bs2 where "bs = bs1 @ bs2"
    "cv_wait P step bs s = (P (fold step (concat bs1) s), fold step (concat bs1) s)"
    using cv_wait_sound [of bs P step s] by blast
  moreover from this(1) have "set (concat bs1) \<subseteq> set (concat bs)" by auto
  from fold [OF this assms(2)] have "I (fold step (concat bs1) s)" .
  ultimately show ?thesis by simp
qed

locale state_part =
  fixes get :: "'s \<Rightarrow> 'p" and put :: "'p \<Rightarrow> 's \<Rightarrow> 's"
  assumes get_put: "get (put p s) = p"
    and put_get: "put (get s) s = s"
    and put_put: "put p (put p' s) = put p s"

locale queue_part = state_part get put
  for get :: "'s \<Rightarrow> 'a BlockingQueue" and put :: "'a BlockingQueue \<Rightarrow> 's \<Rightarrow> 's"
begin

lemma Pop_in_ready:
  assumes "queue (get s) \<noteq> [] \<or> shutdown_flag (get s)"
  shows "Pop_in get put step bs s = (fst (TryPop (get s)), put (snd (TryPop (get s))) s)"
  using assms cv_wait_ready [of "\<lambda>s. queue (get s) \<noteq> [] \<or> shutdown_flag (get s)" s step bs]
  by (auto simp: Pop_in_def TryPop_def put_get split: list.split)

lemma Pop_in_wakes:
  "\<exists>bs1 bs2. bs = bs1 @ bs2 \<and>
     (let s1 = fold step (concat bs1) s
      in Pop_in get put step bs s = (fst (TryPop (get s1)), put (snd (TryPop (get s1))) s1))"
proof -
  let ?P = "\<lambda>s. queue (get s) \<noteq> [] \<or> shutdown_flag (get s)"
  obtain bs1 bs2 where "bs = bs1 @ bs2"
    and "cv_wait ?P step bs s = (?P (fold step (concat bs1) s), fold step (concat bs1) s)"
    using cv_wait_sound [of bs ?P step s] by blast
  then show ?thesis
    by (intro exI [of _ bs1] exI [of _ bs2])
      (auto simp: Pop_in_def TryPop_def put_get Let_def split: list.split)
qed

end

locale table_part = state_part get put
  for get :: "'s \<Rightarrow> PendingRequestTable" and put :: "PendingRequestTable \<Rightarrow> 's \<Rightarrow> 's"
begin

lemma WaitFor_in_wakes:
  assumes "get s txn \<noteq> None"
  shows "\<exists>bs1 bs2. bs = bs1 @ bs2 \<and>
     (let s1 = fold step (concat bs1) s
      in WaitFor_in get put step txn bs s
           = (case get s1 txn of None \<Rightarrow> None | Some r \<Rightarrow> r, put ((get s1)(txn := None)) s1))"
proof -
  let ?P = "\<lambda>s. case get s txn of None \<Rightarrow> True | Some r \<Rightarrow> r \<noteq> None"
  obtain bs1 bs2 where bs: "bs = bs1 @ bs2"
    and w: "cv_wait ?P step bs s = (?P (fold step (concat bs1) s), fold step (concat bs1) s)"
    using cv_wait_sound [of bs ?P step s] by blast
  let ?s1 = "fold step (concat bs1) s"
  have "put ((get ?s1)(txn := None)) ?s1 = ?s1" if "get ?s1 txn = None"
    using that put_get [of ?s1] by (simp add: fun_upd_idem)
  with bs w assms show ?thesis
    by (intro exI [of _ bs1] exI [of _ bs2])
      (auto simp: WaitFor_in_def Let_def split: option.split)
qed

lemma WaitFor_in_removes: "get (snd (WaitFor_in get put step txn bs s)) txn = None"
proof (cases "get s txn = None")
  case True
  then show ?thesis by (simp add: WaitFor_in_def)
next
  case False
  from WaitFor_in_wakes [OF this, of bs step] show ?thesis by (auto simp: Let_def get_put)
qed

lemma WaitFor_in_result:
  assumes "fst (WaitFor_in get put step txn bs s) = Some m"
  shows "\<exists>bs1 bs2. bs = bs1 @ bs2 \<and> get (fold step (concat bs1) s) txn = Some (Some m)"
proof -
  from assms have "get s txn \<noteq> None" by (auto simp: WaitFor_in_def split: if_splits)
  then obtain bs1 bs2 where bs: "bs = bs1 @ bs2"
    and w: "WaitFor_in get put step txn bs s
      = (case get (fold step (concat bs1) s) txn of None \<Rightarrow> None | Some r \<Rightarrow> r,
         put ((get (fold step (concat bs1) s))(txn := None)) (fold step (concat bs1) s))"
    using WaitFor_in_wakes [of s txn bs step] by (auto simp: Let_def)
  from w assms have "get (fold step (concat bs1) s) txn = Some (Some m)"
    by (auto split: option.splits)
  with bs show ?thesis by blast
qed

end

interpretation whole_queue: queue_part id "\<lambda>p _. p"
  by unfold_locales simp_all

interpretation whole_table: table_part id "\<lambda>p _. p"
  by unfold_locales simp_all

section \<open>First in, first out\<close>

text \<open>
  The queue's promise, abstractly: an object whose contents a push extends at the back and a pop
  takes from the front. Clients rely on these laws only.
\<close>

locale fifo =
  fixes push :: "'a \<Rightarrow> 'q \<Rightarrow> 'q" and pop :: "'q \<Rightarrow> 'a option \<times> 'q" and contents :: "'q \<Rightarrow> 'a list"
  assumes contents_push: "contents (push x q) = contents q @ [x]"
    and pop_empty: "contents q = [] \<Longrightarrow> pop q = (None, q)"
    and pop_Cons: "contents q = x # xs \<Longrightarrow> fst (pop q) = Some x \<and> contents (snd (pop q)) = xs"
begin

lemma pop_conserves:
  "(case fst (pop q) of None \<Rightarrow> [] | Some x \<Rightarrow> [x]) @ contents (snd (pop q)) = contents q"
  using pop_empty [of q] pop_Cons [of q] by (cases "contents q") auto

lemma pop_None: "fst (pop q) = None \<longleftrightarrow> contents q = []"
  using pop_empty [of q] pop_Cons [of q] by (cases "contents q") auto

end

interpretation bq: fifo Push TryPop queue
  by unfold_locales (auto simp: Push_def TryPop_def)

lemma queue_Shutdown [simp]: "queue (Shutdown q) = queue q"
  by (simp add: Shutdown_def)

lemma queue_run_conserves:
  "fst (queue_run ops q) @ queue (snd (queue_run ops q)) = queue q @ pushed ops"
proof (induction ops q rule: queue_run.induct)
  case (2 ops q)
  obtain r q' where r: "TryPop q = (r, q')" by (cases "TryPop q")
  with "2.IH" have "fst (queue_run ops q') @ queue (snd (queue_run ops q')) = queue q' @ pushed ops"
    by simp
  moreover have "(case r of None \<Rightarrow> [] | Some x \<Rightarrow> [x]) @ queue q' = queue q"
    using bq.pop_conserves [of q] r by simp
  ultimately show ?case
    by (auto simp: r split: option.splits prod.splits)
qed (simp_all add: bq.contents_push)

section \<open>Correlation\<close>

lemma Complete_cases:
  "Complete t m p = (if p t = None then (False, p) else (True, p(t \<mapsto> Some m)))"
  by (auto simp: Complete_def split: option.split)

lemma table_fold_completed:
  assumes "fold table_step ops p t = Some (Some m)"
  shows "p t = Some (Some m) \<or> OpComplete t m \<in> set ops"
  using assms
proof (induction ops arbitrary: p)
  case (Cons op ops)
  then have "table_step op p t = Some (Some m) \<or> OpComplete t m \<in> set ops" by simp
  then show ?case
    by (cases op)
      (auto simp: RegisterPending_def Complete_cases CancelAll_def split: if_splits)
qed simp

section \<open>Distinct ids\<close>

lemma Next_n_eq: "Next_n n g = map (\<lambda>i. next_id g + of_nat i) [0..<n]"
proof (induction n arbitrary: g)
  case (Suc n)
  have "[0..<Suc n] = 0 # map Suc [0..<n]" by (simp add: map_Suc_upt upt_conv_Cons)
  then show ?case using Suc by (simp add: Next_def o_def algebra_simps)
qed simp

lemma distinct_Next_n: "n \<le> 2 ^ 64 \<Longrightarrow> distinct (Next_n n g)"
proof -
  assume n: "n \<le> 2 ^ 64"
  have "i = j" if "i < n" "j < n" "of_nat i = (of_nat j :: u64)" for i j
  proof -
    have "unat (of_nat i :: u64) = i" "unat (of_nat j :: u64) = j"
      using that(1,2) n by (simp_all add: unat_of_nat)
    with that(3) show "i = j" by metis
  qed
  then show ?thesis by (auto simp: Next_n_eq distinct_map intro!: inj_onI)
qed

section \<open>Progress of the blocking operations\<close>

definition undisturbed :: "'a queue_op list \<Rightarrow> bool" where
  "undisturbed ops \<longleftrightarrow> OpTryPop \<notin> set ops \<and> OpShutdown \<notin> set ops"

lemma undisturbed_fold:
  "undisturbed ops \<Longrightarrow> queue (fold queue_step ops q) = queue q @ pushed ops \<and>
     shutdown_flag (fold queue_step ops q) = shutdown_flag q"
proof (induction ops arbitrary: q)
  case (Cons op ops)
  then show ?case by (cases op) (auto simp: undisturbed_def Push_def)
qed simp

lemma pushed_append: "pushed (xs @ ys) = pushed xs @ pushed ys"
  by (induction xs rule: pushed.induct) simp_all

lemma Pop_ready:
  "queue q \<noteq> [] \<or> shutdown_flag q \<Longrightarrow> Pop bs q = TryPop q"
  using whole_queue.Pop_in_ready [of q queue_step bs] by (simp add: Pop_def)

lemma Pop_Cons: "queue q = [] \<Longrightarrow> \<not> shutdown_flag q \<Longrightarrow> Pop (b # bs) q = Pop bs (fold queue_step b q)"
  by (simp add: Pop_def Pop_in_def)

lemma Pop_delivers_aux:
  assumes "undisturbed (concat bs)" "\<not> shutdown_flag q" "queue q @ pushed (concat bs) = x # xs"
  shows "fst (Pop bs q) = Some x"
  using assms
proof (induction bs arbitrary: q)
  case Nil
  then show ?case by (simp add: Pop_ready bq.pop_Cons)
next
  case (Cons b bs)
  show ?case
  proof (cases "queue q = []")
    case False
    then obtain ys where q: "queue q = x # ys" using Cons.prems(3) by (cases "queue q") auto
    then show ?thesis by (simp add: Pop_ready bq.pop_Cons)
  next
    case True
    have "undisturbed b" "undisturbed (concat bs)" using Cons.prems(1) by (auto simp: undisturbed_def)
    then show ?thesis
      using True Cons.IH [of "fold queue_step b q"] undisturbed_fold [of b q] Cons.prems(2,3)
      by (simp add: Pop_Cons pushed_append)
  qed
qed

text \<open>The operations of other threads on the entry of one transaction id.\<close>

fun touches :: "u64 \<Rightarrow> table_op \<Rightarrow> bool" where
  "touches t (OpRegister u) = (u = t)"
| "touches t (OpComplete u m) = False"
| "touches t (OpErase u) = (u = t)"
| "touches t OpCancelAll = True"

lemma WaitFor_ready: "p t = Some (Some m) \<Longrightarrow> WaitFor t bs p = (Some m, p(t := None))"
  using cv_wait_ready [of "\<lambda>s. case s t of None \<Rightarrow> True | Some r \<Rightarrow> r \<noteq> None" p table_step bs]
  by (simp add: WaitFor_def WaitFor_in_def)

lemma WaitFor_Cons:
  "p t = Some None \<Longrightarrow> fold table_step b p t \<noteq> None \<Longrightarrow>
     WaitFor t (b # bs) p = WaitFor t bs (fold table_step b p)"
  by (auto simp: WaitFor_def WaitFor_in_def)

lemma table_step_untouched:
  "\<not> touches t op \<Longrightarrow> \<forall>m'. op \<noteq> OpComplete t m' \<Longrightarrow> table_step op p t = p t"
  by (cases op) (auto simp: RegisterPending_def Complete_cases)

lemma table_step_OpComplete: "p t \<noteq> None \<Longrightarrow> table_step (OpComplete t m) p t = Some (Some m)"
  by (simp add: Complete_cases)

lemma fold_table_untouched:
  assumes "\<forall>op\<in>set ops. \<not> touches t op" "{m'. OpComplete t m' \<in> set ops} \<subseteq> {m}" "p t \<noteq> None"
  shows "fold table_step ops p t = (if OpComplete t m \<in> set ops then Some (Some m) else p t)"
  using assms
proof (induction ops arbitrary: p)
  case Nil
  then show ?case by simp
next
  case (Cons op ops)
  have IH: "q t \<noteq> None \<Longrightarrow>
      fold table_step ops q t = (if OpComplete t m \<in> set ops then Some (Some m) else q t)" for q
  proof -
    have "\<forall>op\<in>set ops. \<not> touches t op" "{m'. OpComplete t m' \<in> set ops} \<subseteq> {m}"
      using Cons.prems(1,2) by auto
    then show "q t \<noteq> None \<Longrightarrow>
      fold table_step ops q t = (if OpComplete t m \<in> set ops then Some (Some m) else q t)"
      by (rule Cons.IH)
  qed
  show ?case
  proof (cases "op = OpComplete t m")
    case True
    have "table_step op p t = Some (Some m)"
      unfolding True by (rule table_step_OpComplete) (rule Cons.prems(3))
    with IH [of "table_step op p"] True show ?thesis by (simp del: table_step.simps)
  next
    case False
    have "\<forall>m'. op \<noteq> OpComplete t m'" using Cons.prems(2) False by auto
    then have "table_step op p t = p t" using Cons.prems(1) by (intro table_step_untouched) simp_all
    with IH [of "table_step op p"] Cons.prems(3) False show ?thesis by auto
  qed
qed

lemma WaitFor_delivers_aux:
  assumes "\<forall>op\<in>set (concat bs). \<not> touches t op" "{m'. OpComplete t m' \<in> set (concat bs)} \<subseteq> {m}"
    and "p t = Some None" "OpComplete t m \<in> set (concat bs)"
  shows "fst (WaitFor t bs p) = Some m"
  using assms
proof (induction bs arbitrary: p)
  case (Cons b bs)
  have b: "fold table_step b p t = (if OpComplete t m \<in> set b then Some (Some m) else Some None)"
  proof -
    have "\<forall>op\<in>set b. \<not> touches t op" "{m'. OpComplete t m' \<in> set b} \<subseteq> {m}"
      using Cons.prems(1,2) by auto
    from fold_table_untouched [OF this, of p] Cons.prems(3) show ?thesis by simp
  qed
  have step: "WaitFor t (b # bs) p = WaitFor t bs (fold table_step b p)"
    using Cons.prems(3) b by (intro WaitFor_Cons) auto
  show ?case
  proof (cases "OpComplete t m \<in> set b")
    case True
    with b step show ?thesis by (simp add: WaitFor_ready)
  next
    case False
    with Cons.prems(4) have "OpComplete t m \<in> set (concat bs)" by simp
    moreover have "\<forall>op\<in>set (concat bs). \<not> touches t op"
      "{m'. OpComplete t m' \<in> set (concat bs)} \<subseteq> {m}"
      using Cons.prems(1,2) by auto
    ultimately show ?thesis using False b unfolding step by (intro Cons.IH) simp_all
  qed
qed simp

section \<open>Properties of the transaction layer\<close>

text \<open>
  C26: the queue neither loses, duplicates nor reorders messages. Over any sequence of pushes,
  non-blocking pops and shutdowns, what the consumers received followed by what is still queued is
  what was queued at the start followed by what was pushed, in order.
\<close>

theorem queue_fifo:
  "fst (queue_run ops q) @ queue (snd (queue_run ops q)) = queue q @ pushed ops"
  by (rule queue_run_conserves)

text \<open>
  A blocking \<open>Pop\<close> is a non-blocking one at some moment of its wait. Whatever other threads
  do, after some prefix of their operations it takes the front element or finds nothing; it returns
  at once when something is queued or the queue is shut down, and it comes back empty-handed only
  when it left the queue empty.
\<close>

theorem pop_is_trypop_at_wakeup:
  "(\<exists>bs1 bs2. bs = bs1 @ bs2 \<and> Pop bs q = TryPop (fold queue_step (concat bs1) q)) \<and>
   (queue q \<noteq> [] \<or> shutdown_flag q \<longrightarrow> Pop bs q = TryPop q) \<and>
   (fst (Pop bs q) = None \<longrightarrow> queue (snd (Pop bs q)) = [])"
proof (intro conjI impI)
  show ex: "\<exists>bs1 bs2. bs = bs1 @ bs2 \<and> Pop bs q = TryPop (fold queue_step (concat bs1) q)"
    using whole_queue.Pop_in_wakes [of bs queue_step q] by (auto simp: Pop_def Let_def)
  show "Pop bs q = TryPop q" if "queue q \<noteq> [] \<or> shutdown_flag q"
    using that by (rule Pop_ready)
  show "queue (snd (Pop bs q)) = []" if "fst (Pop bs q) = None"
    using ex that bq.pop_None bq.pop_empty by (metis snd_conv)
qed

theorem pop_is_trypop_at_wakeup_witness:
  "Pop [[OpTryPop]] \<lparr>queue = [7, 8::nat], shutdown_flag = False\<rparr>
     = (Some 7, \<lparr>queue = [8], shutdown_flag = False\<rparr>)"
  using pop_is_trypop_at_wakeup [of "[[OpTryPop]]" "\<lparr>queue = [7, 8::nat], shutdown_flag = False\<rparr>"]
  by (simp add: TryPop_def)

text \<open>
  A waiting consumer is served. If no other consumer and no shutdown interferes and something
  is queued or gets pushed before the timeout, \<open>Pop\<close> returns the oldest such element.
\<close>

theorem pop_delivers:
  assumes "undisturbed (concat bs)" "\<not> shutdown_flag q" "queue q @ pushed (concat bs) = x # xs"
  shows "fst (Pop bs q) = Some x"
  using assms by (rule Pop_delivers_aux)

theorem pop_delivers_witness:
  "fst (Pop [[], [OpPush 4, OpPush 5]] \<lparr>queue = [], shutdown_flag = False\<rparr>) = Some (4::nat)"
  by (rule pop_delivers) (simp_all add: undisturbed_def)

text \<open>
  Responses are correlated by transaction id. A message that \<open>WaitFor\<close> returns for an id was
  handed to \<open>Complete\<close> for that very id, before or during the wait; afterwards the id is no
  longer pending, so that a late or duplicate response for it is rejected without any effect, and
  the entries of the other ids are as the other threads left them.
\<close>

theorem waitfor_correlates:
  "(fst (WaitFor t bs p) = Some m \<longrightarrow> p t = Some (Some m) \<or> OpComplete t m \<in> set (concat bs)) \<and>
   Complete t late (snd (WaitFor t bs p)) = (False, snd (WaitFor t bs p)) \<and>
   (\<exists>bs1 bs2. bs = bs1 @ bs2 \<and>
      (\<forall>u. u \<noteq> t \<longrightarrow> snd (WaitFor t bs p) u = fold table_step (concat bs1) p u))"
proof (intro conjI impI)
  assume "fst (WaitFor t bs p) = Some m"
  then obtain bs1 bs2 where "bs = bs1 @ bs2" "fold table_step (concat bs1) p t = Some (Some m)"
    using whole_table.WaitFor_in_result [of table_step t bs p m] by (auto simp: WaitFor_def)
  then show "p t = Some (Some m) \<or> OpComplete t m \<in> set (concat bs)"
    using table_fold_completed by fastforce
next
  show "Complete t late (snd (WaitFor t bs p)) = (False, snd (WaitFor t bs p))"
    using whole_table.WaitFor_in_removes [of table_step t bs p] by (simp add: Complete_cases WaitFor_def)
next
  show "\<exists>bs1 bs2. bs = bs1 @ bs2 \<and>
      (\<forall>u. u \<noteq> t \<longrightarrow> snd (WaitFor t bs p) u = fold table_step (concat bs1) p u)"
  proof (cases "p t = None")
    case True
    then show ?thesis by (intro exI [of _ "[]"] exI [of _ bs]) (simp add: WaitFor_def WaitFor_in_def)
  next
    case False
    with whole_table.WaitFor_in_wakes [of p t bs table_step] show ?thesis
      by (auto simp: WaitFor_def Let_def)
  qed
qed

theorem waitfor_correlates_witness:
  "fst (WaitFor 2 [[OpComplete 1 (sample_rsp 1), OpComplete 2 (sample_rsp 2)]] [1 \<mapsto> None, 2 \<mapsto> None])
     = Some (sample_rsp 2) \<and>
   OpComplete 2 (sample_rsp 2) \<in> set (concat [[OpComplete 1 (sample_rsp 1), OpComplete 2 (sample_rsp 2)]])"
proof -
  let ?bs = "[[OpComplete 1 (sample_rsp 1), OpComplete 2 (sample_rsp 2)]]"
  have "fst (WaitFor 2 ?bs [1 \<mapsto> None, 2 \<mapsto> None]) = Some (sample_rsp 2)"
    by (simp add: WaitFor_def WaitFor_in_def Complete_cases)
  with waitfor_correlates [of 2 ?bs "[1 \<mapsto> None, 2 \<mapsto> None]" "sample_rsp 2" "sample_rsp 2"]
  show ?thesis by simp
qed

text \<open>
  A response that arrives in time is delivered. If the id is registered and its completion
  happens before the timeout, with no other thread removing or re-registering the id, then the
  waiter gets exactly that message, in whatever order the completions of other ids come.
\<close>

theorem waitfor_delivers:
  assumes "p t = Some None" "OpComplete t m \<in> set (concat bs)"
    and "\<forall>op\<in>set (concat bs). \<not> touches t op" "{m'. OpComplete t m' \<in> set (concat bs)} \<subseteq> {m}"
  shows "fst (WaitFor t bs p) = Some m"
  using assms by (intro WaitFor_delivers_aux)

theorem waitfor_delivers_witness:
  "fst (WaitFor 10 [[OpComplete 11 (sample_rsp 11)], [OpComplete 10 (sample_rsp 10)]] [10 \<mapsto> None, 11 \<mapsto> None])
     = Some (sample_rsp 10)"
  by (rule waitfor_delivers) auto

text \<open>
  Transaction ids are unique for the lifetime of a process. The first \<open>n\<close> ids drawn from a
  generator are pairwise different as long as \<open>n\<close> is at most 2 to the 64.
\<close>

theorem txn_ids_distinct: "n \<le> 2 ^ 64 \<Longrightarrow> distinct (Next_n n g)"
  by (rule distinct_Next_n)

theorem txn_ids_distinct_witness: "distinct (Next_n 3 (new_TransactionIdGenerator 100))"
  by (rule txn_ids_distinct) simp

end
