(* ===== verification/Sockets.thy ===== *)
theory Sockets
  imports Prelude
begin

text \<open>
  The Unix-domain socket wrappers (\<open>mini-ics/include/mini_ics/socket.hpp\<close>,
  \<open>mini-ics/src/socket.cpp\<close>). The kernel is the environment: a socket carries the results its
  \<open>poll\<close>, \<open>send\<close> and \<open>recv\<close> calls are going to have, in order, the peer's bytes not yet read
  (\<open>rx\<close>) and the bytes handed to the kernel so far (\<open>tx\<close>). What is built in of the kernel is the
  documented behaviour of a stream socket: \<open>recv\<close> hands out the peer's bytes in order, at most as
  many as asked for, and none at the end of the stream; \<open>send\<close> accepts a prefix of what it is given.
  Fragmentation, interruptions, time-outs and failures are all in the scripts, over which every theorem
  quantifies. A call that finds no result is one that has not returned: the operation is then
  \<open>None\<close>, and the progress theorems show that a cooperative kernel never leaves it there.
\<close>

unbundle bit_operations_syntax

section \<open>System calls\<close>

datatype IoStatus = IoOk | IoTimeout | IoDisconnected | IoError

fun ToString_IoStatus :: "IoStatus \<Rightarrow> string" where
  "ToString_IoStatus IoOk = ''OK''"
| "ToString_IoStatus IoTimeout = ''TIMEOUT''"
| "ToString_IoStatus IoDisconnected = ''DISCONNECTED''"
| "ToString_IoStatus IoError = ''ERROR''"

datatype errno = EINTR | EAGAIN | EWOULDBLOCK | EPIPE | ECONNRESET | EINPROGRESS | OtherErrno nat

definition POLLIN :: u16 where "POLLIN = 0x001"
definition POLLOUT :: u16 where "POLLOUT = 0x004"
definition POLLERR :: u16 where "POLLERR = 0x008"
definition POLLHUP :: u16 where "POLLHUP = 0x010"
definition POLLNVAL :: u16 where "POLLNVAL = 0x020"

datatype poll_result = PollReady u16 | PollTimedOut | PollFailed errno
datatype send_result = SendAccepted nat | SendFailed errno
datatype recv_result = RecvGot nat | RecvFailed errno

fun PollFor :: "u16 \<Rightarrow> poll_result list \<Rightarrow> (IoStatus \<times> poll_result list) option" where
  "PollFor events [] = None"
| "PollFor events (PollReady revents # ps) =
     Some (if revents AND (POLLERR OR POLLNVAL) \<noteq> 0 then IoError
           else if revents AND POLLHUP \<noteq> 0 \<and> \<not> revents AND events \<noteq> 0 then IoDisconnected
           else IoOk, ps)"
| "PollFor events (PollTimedOut # ps) = Some (IoTimeout, ps)"
| "PollFor events (PollFailed e # ps) = (if e = EINTR then PollFor events ps else Some (IoError, ps))"

section \<open>Connected sockets\<close>

record UnixSocket =
  fd :: int
  polls :: "poll_result list"
  sends :: "send_result list"
  recvs :: "recv_result list"
  rx :: bytes
  tx :: bytes

definition no_socket :: UnixSocket where
  "no_socket = \<lparr> fd = -1, polls = [], sends = [], recvs = [], rx = [], tx = [] \<rparr>"

definition IsValid :: "UnixSocket \<Rightarrow> bool" where
  "IsValid s \<longleftrightarrow> 0 \<le> fd s"

definition Close :: "UnixSocket \<Rightarrow> UnixSocket" where
  "Close s = (if 0 \<le> fd s then s\<lparr> fd := -1 \<rparr> else s)"

text \<open>
  One iteration of the loop of \<open>SendAll\<close>: \<open>Inl\<close> is a return from the function, \<open>Inr\<close> the new
  count of sent bytes with which the loop goes on.
\<close>

definition SendAll_body :: "bytes \<Rightarrow> nat \<Rightarrow> UnixSocket \<Rightarrow> ((IoStatus + nat) \<times> UnixSocket) option" where
  "SendAll_body data sent s =
     (case PollFor POLLOUT (polls s) of
        None \<Rightarrow> None
      | Some (wait, ps) \<Rightarrow>
          let s = s\<lparr> polls := ps \<rparr>
          in if wait \<noteq> IoOk then Some (Inl wait, s)
             else case sends s of
                    [] \<Rightarrow> None
                  | SendFailed e # ss \<Rightarrow>
                      Some (if e = EINTR \<or> e = EAGAIN \<or> e = EWOULDBLOCK then Inr sent
                            else if e = EPIPE \<or> e = ECONNRESET then Inl IoDisconnected
                            else Inl IoError, s\<lparr> sends := ss \<rparr>)
                  | SendAccepted k # ss \<Rightarrow>
                      let n = min k (length data - sent)
                      in Some (if n = 0 then Inl IoDisconnected else Inr (sent + n),
                               s\<lparr> sends := ss, tx := tx s @ take n (drop sent data) \<rparr>))"

lemma SendAll_body_shrinks:
  "SendAll_body data sent s = Some (Inr sent', s') \<Longrightarrow> length (sends s') < length (sends s)"
  by (auto simp: SendAll_body_def Let_def split: option.splits prod.splits list.splits
      send_result.splits if_splits)

function SendAll_loop :: "bytes \<Rightarrow> nat \<Rightarrow> UnixSocket \<Rightarrow> (IoStatus \<times> UnixSocket) option" where
  "SendAll_loop data sent s =
     (if sent < length data then
        case SendAll_body data sent s of
          None \<Rightarrow> None
        | Some (Inl st, s') \<Rightarrow> Some (st, s')
        | Some (Inr sent', s') \<Rightarrow> SendAll_loop data sent' s'
      else Some (IoOk, s))"
  by pat_completeness auto
termination
  by (relation "measure (\<lambda>(data, sent, s). length (sends s))") (auto simp: SendAll_body_shrinks)

declare SendAll_loop.simps [simp del]

definition SendAll :: "bytes \<Rightarrow> UnixSocket \<Rightarrow> (IoStatus \<times> UnixSocket) option" where
  "SendAll data s = SendAll_loop data 0 s"

definition RecvAll_body ::
  "bytes \<Rightarrow> nat \<Rightarrow> UnixSocket \<Rightarrow> ((IoStatus + nat) \<times> bytes \<times> UnixSocket) option" where
  "RecvAll_body out received s =
     (case PollFor POLLIN (polls s) of
        None \<Rightarrow> None
      | Some (wait, ps) \<Rightarrow>
          let s = s\<lparr> polls := ps \<rparr>
          in if wait \<noteq> IoOk then Some (Inl wait, out, s)
             else case recvs s of
                    [] \<Rightarrow> None
                  | RecvFailed e # rs \<Rightarrow>
                      Some (if e = EINTR \<or> e = EAGAIN \<or> e = EWOULDBLOCK then Inr received
                            else Inl IoError, out, s\<lparr> recvs := rs \<rparr>)
                  | RecvGot k # rs \<Rightarrow>
                      let chunk = take (min k (length out - received)) (rx s);
                          n = length chunk
                      in Some (if n = 0 then Inl IoDisconnected else Inr (received + n),
                               overwrite out received chunk,
                               s\<lparr> recvs := rs, rx := drop n (rx s) \<rparr>))"

lemma RecvAll_body_shrinks:
  "RecvAll_body out received s = Some (Inr r, out', s') \<Longrightarrow> length (recvs s') < length (recvs s)"
  by (auto simp: RecvAll_body_def Let_def split: option.splits prod.splits list.splits
      recv_result.splits if_splits)

function RecvAll_loop :: "bytes \<Rightarrow> nat \<Rightarrow> UnixSocket \<Rightarrow> (IoStatus \<times> bytes \<times> UnixSocket) option" where
  "RecvAll_loop out received s =
     (if received < length out then
        case RecvAll_body out received s of
          None \<Rightarrow> None
        | Some (Inl st, out', s') \<Rightarrow> Some (st, out', s')
        | Some (Inr received', out', s') \<Rightarrow> RecvAll_loop out' received' s'
      else Some (IoOk, out, s))"
  by pat_completeness auto
termination
  by (relation "measure (\<lambda>(out, received, s). length (recvs s))") (auto simp: RecvAll_body_shrinks)

declare RecvAll_loop.simps [simp del]

definition RecvAll :: "bytes \<Rightarrow> UnixSocket \<Rightarrow> (IoStatus \<times> bytes \<times> UnixSocket) option" where
  "RecvAll out s = RecvAll_loop out 0 s"

definition WaitReadable :: "UnixSocket \<Rightarrow> (IoStatus \<times> UnixSocket) option" where
  "WaitReadable s = map_option (\<lambda>(st, ps). (st, s\<lparr> polls := ps \<rparr>)) (PollFor POLLIN (polls s))"

section \<open>Listening and connecting\<close>

text \<open>The process's open descriptors and the socket files in the file system.\<close>

record os =
  open_fds :: "int set"
  socket_files :: "string set"

datatype accept_result = AcceptOk UnixSocket | AcceptFailed

record UnixListener =
  lfd :: int
  lpath :: string
  lpolls :: "poll_result list"
  accepts :: "accept_result list"

definition sun_path_size :: nat where "sun_path_size = 108"

definition sys_close :: "int \<Rightarrow> os \<Rightarrow> os" where
  "sys_close d w = w\<lparr> open_fds := open_fds w - {d} \<rparr>"

definition sys_unlink :: "string \<Rightarrow> os \<Rightarrow> os" where
  "sys_unlink p w = w\<lparr> socket_files := socket_files w - {p} \<rparr>"

text \<open>
  \<open>Listen\<close> takes the outcomes of its system calls: the descriptor \<open>socket\<close> returns (negative on
  failure) and whether \<open>bind\<close> and \<open>listen\<close> succeed.
\<close>

definition Listen :: "int \<Rightarrow> bool \<Rightarrow> bool \<Rightarrow> string \<Rightarrow> UnixListener \<Rightarrow> os \<Rightarrow> bool \<times> UnixListener \<times> os" where
  "Listen d bind_ok listen_ok path l w =
     (if d < 0 then (False, l, w)
      else
        let w = w\<lparr> open_fds := insert d (open_fds w) \<rparr>
        in if length path \<ge> sun_path_size then (False, l, sys_close d w)
           else
             let w = sys_unlink path w
             in if \<not> bind_ok then (False, l, sys_close d w)
                else
                  let w = w\<lparr> socket_files := insert path (socket_files w) \<rparr>
                  in if \<not> listen_ok then (False, l, sys_close d w)
                     else (True, l\<lparr> lfd := d, lpath := path \<rparr>, w))"

definition Accept :: "UnixListener \<Rightarrow> (IoStatus \<times> UnixSocket option \<times> UnixListener) option" where
  "Accept l =
     (case PollFor POLLIN (lpolls l) of
        None \<Rightarrow> None
      | Some (wait, ps) \<Rightarrow>
          if wait \<noteq> IoOk then Some (wait, None, l\<lparr> lpolls := ps \<rparr>)
          else case accepts l of
                 [] \<Rightarrow> None
               | AcceptFailed # as \<Rightarrow> Some (IoError, None, l\<lparr> lpolls := ps, accepts := as \<rparr>)
               | AcceptOk s # as \<Rightarrow> Some (IoOk, Some s, l\<lparr> lpolls := ps, accepts := as \<rparr>))"

definition Listener_Close :: "UnixListener \<Rightarrow> os \<Rightarrow> UnixListener \<times> os" where
  "Listener_Close l w =
     (if 0 \<le> lfd l then
        let w = sys_close (lfd l) w
        in if lpath l \<noteq> [] then (l\<lparr> lfd := -1, lpath := [] \<rparr>, sys_unlink (lpath l) w)
           else (l\<lparr> lfd := -1 \<rparr>, w)
      else (l, w))"

text \<open>
  \<open>ConnectUnixSocket\<close>: \<open>conn\<close> is the connection as the kernel will serve it, with its descriptor;
  \<open>rc\<close> is \<open>None\<close> when \<open>connect\<close> returns 0 and the errno otherwise, \<open>so_ok\<close> says that
  \<open>getsockopt\<close> succeeds and reports no pending error. The result is the socket moved into \<open>out\<close>.
\<close>

definition ConnectUnixSocket ::
  "UnixSocket \<Rightarrow> errno option \<Rightarrow> bool \<Rightarrow> string \<Rightarrow> os \<Rightarrow> (IoStatus \<times> UnixSocket option \<times> os) option" where
  "ConnectUnixSocket conn rc so_ok path w =
     (if fd conn < 0 then Some (IoError, None, w)
      else
        let w = w\<lparr> open_fds := insert (fd conn) (open_fds w) \<rparr>
        in if length path \<ge> sun_path_size then Some (IoError, None, sys_close (fd conn) w)
           else case rc of
                  None \<Rightarrow> Some (IoOk, Some conn, w)
                | Some e \<Rightarrow>
                    if e \<noteq> EINPROGRESS then Some (IoError, None, sys_close (fd conn) w)
                    else case PollFor POLLOUT (polls conn) of
                           None \<Rightarrow> None
                         | Some (wait, ps) \<Rightarrow>
                             if wait \<noteq> IoOk then Some (wait, None, sys_close (fd conn) w)
                             else if \<not> so_ok then Some (IoError, None, sys_close (fd conn) w)
                             else Some (IoOk, Some (conn\<lparr> polls := ps \<rparr>), w))"

section \<open>Cooperative kernels\<close>

text \<open>
  A kernel that makes progress: every wait ends in readiness (possibly after interruptions), every
  \<open>recv\<close> and \<open>send\<close> moves at least one byte or asks to retry. \<open>cooperative n m s\<close> says that the
  scripts are long enough to read \<open>n\<close> bytes (or perform readiness checks) and to write \<open>m\<close> bytes.
\<close>

fun poll_good :: "poll_result \<Rightarrow> bool" where
  "poll_good (PollReady re) = (re AND (POLLERR OR POLLNVAL) = 0 \<and> re AND POLLHUP = 0)"
| "poll_good PollTimedOut = False"
| "poll_good (PollFailed e) = (e = EINTR)"

fun poll_ready :: "poll_result \<Rightarrow> bool" where
  "poll_ready (PollReady re) = True"
| "poll_ready _ = False"

definition retryable :: "errno \<Rightarrow> bool" where
  "retryable e \<longleftrightarrow> e = EINTR \<or> e = EAGAIN \<or> e = EWOULDBLOCK"

fun recv_good :: "recv_result \<Rightarrow> bool" where
  "recv_good (RecvGot k) = (0 < k)"
| "recv_good (RecvFailed e) = retryable e"

fun send_good :: "send_result \<Rightarrow> bool" where
  "send_good (SendAccepted k) = (0 < k)"
| "send_good (SendFailed e) = retryable e"

fun recv_moves :: "recv_result \<Rightarrow> bool" where
  "recv_moves (RecvGot k) = True"
| "recv_moves (RecvFailed e) = False"

fun send_moves :: "send_result \<Rightarrow> bool" where
  "send_moves (SendAccepted k) = True"
| "send_moves (SendFailed e) = False"

definition count_if :: "('a \<Rightarrow> bool) \<Rightarrow> 'a list \<Rightarrow> nat" where
  "count_if P xs = length (filter P xs)"

definition cooperative :: "nat \<Rightarrow> nat \<Rightarrow> UnixSocket \<Rightarrow> bool" where
  "cooperative n m s \<longleftrightarrow>
     list_all poll_good (polls s) \<and> list_all recv_good (recvs s) \<and> list_all send_good (sends s) \<and>
     n \<le> count_if recv_moves (recvs s) \<and> m \<le> count_if send_moves (sends s) \<and>
     n + m + count_if (\<lambda>r. \<not> recv_moves r) (recvs s) + count_if (\<lambda>r. \<not> send_moves r) (sends s)
       \<le> count_if poll_ready (polls s)"

section \<open>Partial correctness of the I/O loops\<close>

lemma Close_simps [simp]: "\<not> IsValid (Close s)" "rx (Close s) = rx s" "tx (Close s) = tx s"
  by (simp_all add: Close_def IsValid_def)

lemma SendAll_loop_done: "length data \<le> sent \<Longrightarrow> SendAll_loop data sent s = Some (IoOk, s)"
  by (subst SendAll_loop.simps) simp

lemma RecvAll_loop_done: "length out \<le> received \<Longrightarrow> RecvAll_loop out received s = Some (IoOk, out, s)"
  by (subst RecvAll_loop.simps) simp

lemma SendAll_body_cases:
  assumes "SendAll_body data sent s = Some (c, s')" "sent < length data"
  obtains (return) st where "c = Inl st" "st \<noteq> IoOk" "tx s' = tx s"
      "rx s' = rx s" "recvs s' = recvs s" "fd s' = fd s"
  | (continue) n where "c = Inr (sent + n)" "sent + n \<le> length data"
      "tx s' = tx s @ take n (drop sent data)" "rx s' = rx s" "recvs s' = recvs s" "fd s' = fd s"
  using assms
  by (fastforce simp: SendAll_body_def Let_def split: option.splits prod.splits list.splits
      send_result.splits if_splits)

lemma SendAll_loop_result:
  assumes "SendAll_loop data sent s = Some (st, s')" "sent \<le> length data"
  shows "\<exists>r. sent \<le> r \<and> r \<le> length data \<and> tx s' = tx s @ take (r - sent) (drop sent data) \<and>
     (st = IoOk \<longleftrightarrow> r = length data) \<and> rx s' = rx s \<and> recvs s' = recvs s \<and> fd s' = fd s"
  using assms
proof (induction data sent s rule: SendAll_loop.induct)
  case (1 data sent s)
  show ?case
  proof (cases "sent < length data")
    case False
    with "1.prems" show ?thesis by (auto simp: SendAll_loop.simps [of data sent s])
  next
    case True
    with "1.prems" obtain c s1 where b: "SendAll_body data sent s = Some (c, s1)"
      by (auto simp: SendAll_loop.simps [of data sent s] split: option.splits)
    from b True show ?thesis
    proof (cases rule: SendAll_body_cases)
      case (return st1)
      with b True "1.prems" show ?thesis
        by (intro exI [of _ sent]) (auto simp: SendAll_loop.simps [of data sent s])
    next
      case (continue n)
      with b True "1.prems" have "SendAll_loop data (sent + n) s1 = Some (st, s')"
        by (auto simp: SendAll_loop.simps [of data sent s])
      from "1.IH" [OF True b refl continue(1) this continue(2)] continue
      obtain q where q: "sent + n \<le> q" "q \<le> length data" "st = IoOk \<longleftrightarrow> q = length data"
        "tx s' = tx s @ take n (drop sent data) @ take (q - (sent + n)) (drop (sent + n) data)"
        "rx s' = rx s" "recvs s' = recvs s" "fd s' = fd s"
        by auto
      moreover have "take n (drop sent data) @ take (q - (sent + n)) (drop (sent + n) data)
          = take (q - sent) (drop sent data)"
        using q(1) take_add [of n "q - (sent + n)" "drop sent data"] by (simp add: add.commute)
      ultimately show ?thesis by (intro exI [of _ q]) auto
    qed
  qed
qed

lemma RecvAll_body_cases:
  assumes "RecvAll_body out received s = Some (c, out', s')" "received < length out"
  obtains (return) st where "c = Inl st" "st \<noteq> IoOk" "out' = out" "rx s' = rx s"
      "tx s' = tx s" "sends s' = sends s" "fd s' = fd s"
  | (continue) n where "c = Inr (received + n)" "received + n \<le> length out" "n \<le> length (rx s)"
      "out' = overwrite out received (take n (rx s))" "rx s' = drop n (rx s)"
      "tx s' = tx s" "sends s' = sends s" "fd s' = fd s"
proof -
  from assms(1) obtain wait ps where p: "PollFor POLLIN (polls s) = Some (wait, ps)"
    by (auto simp: RecvAll_body_def split: option.splits)
  show thesis
  proof (cases "wait = IoOk")
    case False
    with assms(1) p show thesis by (intro return [of wait]) (auto simp: RecvAll_body_def)
  next
    case True
    with assms(1) p obtain r rs where r: "recvs s = r # rs"
      by (auto simp: RecvAll_body_def Let_def split: list.splits)
    show thesis
    proof (cases r)
      case (RecvFailed e)
      with assms True p r show thesis
        by (cases "e = EINTR \<or> e = EAGAIN \<or> e = EWOULDBLOCK", intro continue [of 0])
          (auto simp: RecvAll_body_def Let_def intro!: return [of IoError])
    next
      case (RecvGot k)
      define n where "n = min (length (rx s)) (min k (length out - received))"
      have n: "take (min k (length out - received)) (rx s) = take n (rx s)" "length (take n (rx s)) = n"
        "n \<le> length out - received" "n \<le> length (rx s)"
        by (auto simp: n_def min_def)
      from n(2) have n0: "take n (rx s) = [] \<longleftrightarrow> n = 0" by (metis length_0_conv)
      have eq: "c = (if n = 0 then Inl IoDisconnected else Inr (received + n))"
        "out' = overwrite out received (take n (rx s))"
        "s' = s\<lparr>polls := ps, recvs := rs, rx := drop n (rx s)\<rparr>"
        using assms(1) True p r RecvGot by (auto simp: RecvAll_body_def Let_def n(1,2) n0 simp del: length_take take_eq_Nil)
      show thesis
      proof (cases "n = 0")
        case True
        with eq show thesis by (intro return [of IoDisconnected]) simp_all
      next
        case False
        with eq n(3,4) assms(2) show thesis by (intro continue [of n]) simp_all
      qed
    qed
  qed
qed

lemma overwrite_overwrite:
  assumes "p + length xs + length ys \<le> length buf"
  shows "overwrite (overwrite buf p xs) (p + length xs) ys = overwrite buf p (xs @ ys)"
  using assms by (simp add: overwrite_def) (simp add: ac_simps)

lemma RecvAll_loop_result:
  assumes "RecvAll_loop out received s = Some (st, out', s')" "received \<le> length out"
  shows "\<exists>n. received + n \<le> length out \<and> n \<le> length (rx s) \<and>
     out' = overwrite out received (take n (rx s)) \<and> rx s' = drop n (rx s) \<and>
     (st = IoOk \<longleftrightarrow> received + n = length out) \<and> tx s' = tx s \<and> sends s' = sends s \<and> fd s' = fd s"
  using assms
proof (induction out received s rule: RecvAll_loop.induct)
  case (1 out received s)
  show ?case
  proof (cases "received < length out")
    case False
    with "1.prems" show ?thesis
      by (intro exI [of _ 0]) (auto simp: RecvAll_loop.simps [of out received s])
  next
    case True
    with "1.prems" obtain c out1 s1 where b: "RecvAll_body out received s = Some (c, out1, s1)"
      by (auto simp: RecvAll_loop.simps [of out received s] split: option.splits)
    from b True show ?thesis
    proof (cases rule: RecvAll_body_cases)
      case (return st1)
      with b True "1.prems" show ?thesis
        by (intro exI [of _ 0]) (auto simp: RecvAll_loop.simps [of out received s])
    next
      case (continue n)
      have len: "length out1 = length out" using continue by simp
      from continue b True "1.prems" have "RecvAll_loop out1 (received + n) s1 = Some (st, out', s')"
        by (auto simp: RecvAll_loop.simps [of out received s])
      from "1.IH" [OF True b refl continue(1) refl this] continue len
      obtain k where k: "received + n + k \<le> length out" "k \<le> length (rx s) - n"
        "out' = overwrite out1 (received + n) (take k (drop n (rx s)))" "rx s' = drop (k + n) (rx s)"
        "st = IoOk \<longleftrightarrow> received + n + k = length out" "tx s' = tx s" "sends s' = sends s" "fd s' = fd s"
        by auto
      moreover have "out' = overwrite out received (take (n + k) (rx s))"
        using overwrite_overwrite [of received "take n (rx s)" "take k (drop n (rx s))" out] k continue
        by (simp add: take_add)
      ultimately show ?thesis using continue(3)
        by (intro exI [of _ "n + k"]) (auto simp: add.assoc add.commute)
    qed
  qed
qed

section \<open>Progress with a cooperative kernel\<close>

lemma count_if_simps [simp]:
  "count_if P [] = 0" "count_if P (x # xs) = (if P x then Suc (count_if P xs) else count_if P xs)"
  by (simp_all add: count_if_def)

lemma PollFor_good:
  assumes "list_all poll_good ps" "0 < count_if poll_ready ps"
  shows "\<exists>ps'. PollFor ev ps = Some (IoOk, ps') \<and> list_all poll_good ps' \<and>
           count_if poll_ready ps = Suc (count_if poll_ready ps')"
  using assms
proof (induction ps)
  case (Cons p ps)
  then show ?case by (cases p) auto
qed simp

lemma cooperative_mono: "cooperative n m s \<Longrightarrow> n' \<le> n \<Longrightarrow> m' \<le> m \<Longrightarrow> cooperative n' m' s"
  by (auto simp: cooperative_def)

lemma cooperative_WaitReadable:
  assumes "cooperative (Suc n) m s"
  shows "\<exists>s'. WaitReadable s = Some (IoOk, s') \<and> cooperative n m s' \<and> rx s' = rx s \<and> tx s' = tx s \<and> fd s' = fd s"
proof -
  from assms have "list_all poll_good (polls s)" "0 < count_if poll_ready (polls s)"
    by (auto simp: cooperative_def)
  from PollFor_good [OF this, of POLLIN] obtain ps' where
    "PollFor POLLIN (polls s) = Some (IoOk, ps')" "list_all poll_good ps'"
    "count_if poll_ready (polls s) = Suc (count_if poll_ready ps')" by blast
  with assms show ?thesis by (auto simp: WaitReadable_def cooperative_def)
qed

lemma RecvAll_body_progress:
  assumes "cooperative n m s" "received < length out" "length out - received \<le> n"
    and "length out - received \<le> length (rx s)"
  obtains k out' s' where "RecvAll_body out received s = Some (Inr (received + k), out', s')"
    "cooperative (n - k) m s'" "received + k \<le> length out" "length out' = length out"
    "rx s' = drop k (rx s)"
proof -
  from assms have "list_all poll_good (polls s)" "0 < count_if poll_ready (polls s)"
    by (auto simp: cooperative_def)
  from PollFor_good [OF this, of POLLIN] obtain ps' where p:
    "PollFor POLLIN (polls s) = Some (IoOk, ps')" "list_all poll_good ps'"
    "count_if poll_ready (polls s) = Suc (count_if poll_ready ps')" by blast
  from assms obtain r rs where r: "recvs s = r # rs"
    by (cases "recvs s") (auto simp: cooperative_def)
  show thesis
  proof (cases r)
    case (RecvFailed e)
    with assms p r show thesis
      by (intro that [of 0 out "s\<lparr>polls := ps', recvs := rs\<rparr>"])
        (auto simp: RecvAll_body_def Let_def cooperative_def retryable_def)
  next
    case (RecvGot k)
    define n' where "n' = min k (length out - received)"
    have n': "0 < n'" "n' \<le> length out - received" "n' \<le> n"
      using assms r RecvGot by (auto simp: n'_def cooperative_def)
    have "length (take n' (rx s)) = n'" "rx s \<noteq> []" using n'(1,2) assms(4) by auto
    then have "RecvAll_body out received s = Some (Inr (received + n'),
        overwrite out received (take n' (rx s)), s\<lparr>polls := ps', recvs := rs, rx := drop n' (rx s)\<rparr>)"
      using p r RecvGot n'(1) by (simp add: RecvAll_body_def Let_def n'_def [symmetric])
    moreover have "cooperative (n - n') m (s\<lparr>polls := ps', recvs := rs, rx := drop n' (rx s)\<rparr>)"
      using assms(1) p r RecvGot n' by (auto simp: cooperative_def)
    ultimately show thesis using n' assms(2,4)
      by (intro that [of n' "overwrite out received (take n' (rx s))"
            "s\<lparr>polls := ps', recvs := rs, rx := drop n' (rx s)\<rparr>"]) auto
  qed
qed

lemma RecvAll_loop_progress:
  assumes "cooperative n m s" "received \<le> length out" "length out - received \<le> n"
    and "length out - received \<le> length (rx s)"
  shows "\<exists>out' s'. RecvAll_loop out received s = Some (IoOk, out', s') \<and>
           cooperative (n - (length out - received)) m s'"
  using assms
proof (induction out received s arbitrary: n rule: RecvAll_loop.induct)
  case (1 out received s)
  show ?case
  proof (cases "received < length out")
    case False
    then show ?thesis using "1.prems" by (simp add: RecvAll_loop_done)
  next
    case True
    from "1.prems" True obtain k out1 s1 where
      b: "RecvAll_body out received s = Some (Inr (received + k), out1, s1)"
      and s1: "cooperative (n - k) m s1" "received + k \<le> length out" "length out1 = length out"
        "rx s1 = drop k (rx s)"
      using RecvAll_body_progress [of n m s received out] by metis
    have "\<exists>out' s'. RecvAll_loop out1 (received + k) s1 = Some (IoOk, out', s') \<and>
        cooperative (n - k - (length out1 - (received + k))) m s'"
      using s1 "1.prems"(3,4) by (intro "1.IH" [OF True b refl refl refl]) auto
    moreover have "n - k - (length out1 - (received + k)) = n - (length out - received)"
      using s1(2,3) by simp
    ultimately show ?thesis by (simp add: RecvAll_loop.simps [of out received s] True b)
  qed
qed

lemma SendAll_body_progress:
  assumes "cooperative n m s" "sent < length data" "length data - sent \<le> m"
  obtains k s' where "SendAll_body data sent s = Some (Inr (sent + k), s')"
    "cooperative n (m - k) s'" "sent + k \<le> length data"
proof -
  from assms have "list_all poll_good (polls s)" "0 < count_if poll_ready (polls s)"
    by (auto simp: cooperative_def)
  from PollFor_good [OF this, of POLLOUT] obtain ps' where p:
    "PollFor POLLOUT (polls s) = Some (IoOk, ps')" "list_all poll_good ps'"
    "count_if poll_ready (polls s) = Suc (count_if poll_ready ps')" by blast
  from assms obtain r rs where r: "sends s = r # rs"
    by (cases "sends s") (auto simp: cooperative_def)
  show thesis
  proof (cases r)
    case (SendFailed e)
    with assms p r show thesis
      by (intro that [of 0 "s\<lparr>polls := ps', sends := rs\<rparr>"])
        (auto simp: SendAll_body_def Let_def cooperative_def retryable_def)
  next
    case (SendAccepted k)
    define n' where "n' = min k (length data - sent)"
    have n': "0 < n'" "n' \<le> length data - sent" "n' \<le> m"
      using assms r SendAccepted by (auto simp: n'_def cooperative_def)
    have "SendAll_body data sent s = Some (Inr (sent + n'),
        s\<lparr>polls := ps', sends := rs, tx := tx s @ take n' (drop sent data)\<rparr>)"
      using p r SendAccepted n'(1) by (simp add: SendAll_body_def Let_def n'_def [symmetric])
    moreover have "cooperative n (m - n') (s\<lparr>polls := ps', sends := rs, tx := tx s @ take n' (drop sent data)\<rparr>)"
      using assms(1) p r SendAccepted n' by (auto simp: cooperative_def)
    ultimately show thesis using n' assms(2)
      by (intro that [of n' "s\<lparr>polls := ps', sends := rs, tx := tx s @ take n' (drop sent data)\<rparr>"]) auto
  qed
qed

lemma SendAll_loop_progress:
  assumes "cooperative n m s" "sent \<le> length data" "length data - sent \<le> m"
  shows "\<exists>s'. SendAll_loop data sent s = Some (IoOk, s') \<and> cooperative n (m - (length data - sent)) s'"
  using assms
proof (induction data sent s arbitrary: m rule: SendAll_loop.induct)
  case (1 data sent s)
  show ?case
  proof (cases "sent < length data")
    case False
    then show ?thesis using "1.prems" by (simp add: SendAll_loop_done)
  next
    case True
    from "1.prems" True obtain k s1 where
      b: "SendAll_body data sent s = Some (Inr (sent + k), s1)"
      and s1: "cooperative n (m - k) s1" "sent + k \<le> length data"
      using SendAll_body_progress [of n m s sent data] by metis
    have "\<exists>s'. SendAll_loop data (sent + k) s1 = Some (IoOk, s') \<and>
        cooperative n (m - k - (length data - (sent + k))) s'"
      using s1 "1.prems"(3) by (intro "1.IH" [OF True b refl refl]) auto
    moreover have "m - k - (length data - (sent + k)) = m - (length data - sent)" using s1(2) by simp
    ultimately show ?thesis by (simp add: SendAll_loop.simps [of data sent s] True b)
  qed
qed

section \<open>Summary of the two transfers\<close>

lemma SendAll_result:
  assumes "SendAll data s = Some (st, s')"
  shows "\<exists>r \<le> length data. tx s' = tx s @ take r data \<and> (st = IoOk \<longleftrightarrow> r = length data) \<and>
     rx s' = rx s \<and> recvs s' = recvs s \<and> fd s' = fd s"
  using SendAll_loop_result [of data 0 s st s'] assms by (auto simp: SendAll_def)

lemma SendAll_ok: "SendAll data s = Some (IoOk, s') \<Longrightarrow> tx s' = tx s @ data \<and> rx s' = rx s \<and> fd s' = fd s"
  using SendAll_result by fastforce

lemma SendAll_cooperative:
  assumes "cooperative n m s" "length data \<le> m"
  shows "\<exists>s'. SendAll data s = Some (IoOk, s') \<and> cooperative n (m - length data) s' \<and>
     tx s' = tx s @ data \<and> rx s' = rx s \<and> fd s' = fd s"
  using SendAll_loop_progress [OF assms(1), of 0 data] assms(2) SendAll_ok
  by (fastforce simp: SendAll_def)

lemma RecvAll_result:
  assumes "RecvAll out s = Some (st, out', s')"
  shows "\<exists>n \<le> length out. n \<le> length (rx s) \<and> out' = take n (rx s) @ drop n out \<and>
     rx s' = drop n (rx s) \<and> (st = IoOk \<longleftrightarrow> n = length out) \<and> tx s' = tx s \<and> sends s' = sends s \<and> fd s' = fd s"
proof -
  from RecvAll_loop_result [of out 0 s st out' s'] assms obtain n where
    "n \<le> length out" "n \<le> length (rx s)" "out' = overwrite out 0 (take n (rx s))" "rx s' = drop n (rx s)"
    "st = IoOk \<longleftrightarrow> n = length out" "tx s' = tx s" "sends s' = sends s" "fd s' = fd s"
    by (auto simp: RecvAll_def)
  then show ?thesis by (intro exI [of _ n]) (auto simp: overwrite_def)
qed

lemma RecvAll_ok:
  assumes "RecvAll out s = Some (IoOk, out', s')"
  shows "out' = take (length out) (rx s)" "rx s' = drop (length out) (rx s)" "length out \<le> length (rx s)"
    "tx s' = tx s" "fd s' = fd s" "sends s' = sends s"
  using RecvAll_result [OF assms] by auto

lemma RecvAll_cooperative:
  assumes "cooperative n m s" "length out \<le> n" "length out \<le> length (rx s)"
  shows "\<exists>s'. RecvAll out s = Some (IoOk, take (length out) (rx s), s') \<and>
     cooperative (n - length out) m s' \<and> rx s' = drop (length out) (rx s) \<and> tx s' = tx s \<and> fd s' = fd s"
proof -
  from RecvAll_loop_progress [OF assms(1), of 0 out] assms(2,3) obtain out' s' where
    r: "RecvAll out s = Some (IoOk, out', s')" and "cooperative (n - length out) m s'"
    by (auto simp: RecvAll_def)
  with RecvAll_ok [OF r] show ?thesis by auto
qed

section \<open>Properties of the socket layer\<close>

text \<open>A kernel that interrupts a wait, delivers in fragments and asks to retry once, for the examples.\<close>

definition sample_socket :: "bytes \<Rightarrow> UnixSocket" where
  "sample_socket bs = \<lparr> fd = 5, polls = PollFailed EINTR # replicate 8 (PollReady POLLIN),
     sends = [SendAccepted 1, SendFailed EAGAIN, SendAccepted 9],
     recvs = [RecvGot 1, RecvFailed EINTR, RecvGot 1, RecvGot 7], rx = bs, tx = [] \<rparr>"

lemma sample_socket_cooperative: "cooperative 3 2 (sample_socket bs)"
  by (simp add: cooperative_def sample_socket_def POLLIN_def POLLERR_def POLLNVAL_def POLLHUP_def
      retryable_def numeral_eq_Suc)

text \<open>A connection on which every wait succeeds and \<open>n\<close> transfers each way move up to a page, for the examples.\<close>

definition ideal_socket :: "nat \<Rightarrow> int \<Rightarrow> bytes \<Rightarrow> UnixSocket" where
  "ideal_socket n d inb = \<lparr> fd = d, polls = replicate (2 * n) (PollReady POLLIN),
     sends = replicate n (SendAccepted 4096), recvs = replicate n (RecvGot 4096), rx = inb, tx = [] \<rparr>"

lemma count_if_replicate [simp]: "count_if P (replicate n x) = (if P x then n else 0)"
  by (simp add: count_if_def)

lemma ideal_socket_cooperative: "a \<le> n \<Longrightarrow> b \<le> n \<Longrightarrow> cooperative a b (ideal_socket n d inb)"
  by (simp add: cooperative_def ideal_socket_def POLLIN_def POLLERR_def POLLNVAL_def POLLHUP_def list_all_iff)

lemma ideal_socket_simps [simp]:
  "fd (ideal_socket n d inb) = d" "rx (ideal_socket n d inb) = inb" "tx (ideal_socket n d inb) = []"
  by (simp_all add: ideal_socket_def)

text \<open>
  C27: \<open>SendAll\<close> never sends anything but a prefix of its data, whatever the kernel does with
  partial writes, interruptions and errors, and it reports success exactly when all of it was
  handed over.
\<close>

theorem sendall_exact:
  assumes "SendAll data s = Some (st, s')"
  shows "\<exists>r \<le> length data. tx s' = tx s @ take r data \<and> (st = IoOk \<longleftrightarrow> r = length data) \<and> rx s' = rx s"
  using SendAll_result [OF assms] by blast

theorem sendall_exact_witness:
  "\<exists>s'. SendAll [1, 2] (sample_socket []) = Some (IoOk, s') \<and>
     (\<exists>r \<le> length [1::u8, 2]. tx s' = take r [1, 2] \<and> (IoOk = IoOk \<longleftrightarrow> r = length [1::u8, 2]))"
proof -
  obtain s' where s': "SendAll [1, 2] (sample_socket []) = Some (IoOk, s')"
    using SendAll_cooperative [OF sample_socket_cooperative, of "[1, 2]"] by auto
  from sendall_exact [OF s'] have
    "\<exists>r \<le> length [1::u8, 2]. tx s' = take r [1, 2] \<and> (IoOk = IoOk \<longleftrightarrow> r = length [1::u8, 2])"
    by (auto simp: sample_socket_def)
  with s' show ?thesis by blast
qed

text \<open>
  C28: \<open>RecvAll\<close> consumes a prefix of the peer's stream into the front of the buffer, keeps the rest of
  the buffer, and reports success exactly when the buffer is full; a peer that closes early is never
  taken for a complete read.
\<close>

theorem recvall_exact:
  assumes "RecvAll out s = Some (st, out', s')"
  shows "\<exists>n \<le> length out. n \<le> length (rx s) \<and> out' = take n (rx s) @ drop n out \<and>
     rx s' = drop n (rx s) \<and> (st = IoOk \<longleftrightarrow> n = length out) \<and> tx s' = tx s"
  using RecvAll_result [OF assms] by blast

theorem recvall_exact_witness:
  "\<exists>s'. RecvAll [0, 0, 0] (sample_socket [7, 8]) = Some (IoDisconnected, [7, 8, 0], s')"
proof -
  obtain s' out' where s': "RecvAll [0, 0, 0] (sample_socket [7, 8]) = Some (IoDisconnected, out', s')"
    and "rx s' = []"
    by (simp add: RecvAll_def RecvAll_loop.simps RecvAll_body_def sample_socket_def POLLIN_def POLLERR_def
        POLLNVAL_def POLLHUP_def Let_def numeral_eq_Suc)
  with recvall_exact [OF s'] have "out' = [7, 8, 0]"
    by (auto simp: sample_socket_def le_Suc_eq)
  with s' show ?thesis by blast
qed

text \<open>
  With a cooperative kernel the two transfers finish successfully: every byte is sent, and a
  buffer of \<open>k\<close> bytes is filled with the next \<open>k\<close> bytes of the peer, in spite of fragmentation,
  interrupted waits and retries.
\<close>

theorem transfers_complete:
  assumes "cooperative n m s" "length data \<le> m" "k \<le> n" "k \<le> length (rx s)"
  shows "(\<exists>s'. SendAll data s = Some (IoOk, s') \<and> tx s' = tx s @ data) \<and>
    (\<exists>s'. RecvAll (replicate k 0) s = Some (IoOk, take k (rx s), s') \<and> rx s' = drop k (rx s))"
  using SendAll_cooperative [OF assms(1,2)] RecvAll_cooperative [OF assms(1), of "replicate k 0"] assms(3,4)
  by auto

theorem transfers_complete_witness:
  "(\<exists>s'. SendAll [1, 2] (sample_socket [7, 8, 9, 10]) = Some (IoOk, s')) \<and>
   (\<exists>s'. RecvAll (replicate 3 0) (sample_socket [7, 8, 9, 10]) = Some (IoOk, [7, 8, 9], s') \<and> rx s' = [10])"
  using transfers_complete [OF sample_socket_cooperative, of "[1, 2]" 3 "[7, 8, 9, 10]"]
  by (auto simp: sample_socket_def)

text \<open>
  Descriptors and socket files are not leaked. A failed \<open>Listen\<close> or \<open>ConnectUnixSocket\<close> leaves
  the set of open descriptors as it was and hands out nothing; a successful one owns exactly the new
  descriptor, and closing a listener again releases it and removes its socket file.
\<close>

theorem descriptors_not_leaked:
  assumes "d \<notin> open_fds w" "fd conn \<notin> open_fds w" "path \<noteq> []"
  shows "(case Listen d bind_ok listen_ok path l w of (ok, l', w') \<Rightarrow>
      if ok then lfd l' = d \<and> open_fds w' = insert d (open_fds w) \<and>
        Listener_Close l' w' = (l\<lparr> lfd := -1, lpath := [] \<rparr>,
          \<lparr> open_fds = open_fds w, socket_files = socket_files w - {path} \<rparr>)
      else l' = l \<and> open_fds w' = open_fds w) \<and>
    (case ConnectUnixSocket conn rc so_ok path w of
       None \<Rightarrow> True
     | Some (st, out, w') \<Rightarrow> (st = IoOk \<longleftrightarrow> out \<noteq> None) \<and>
         open_fds w' = (if st = IoOk then insert (fd conn) (open_fds w) else open_fds w))"
proof
  show "case Listen d bind_ok listen_ok path l w of (ok, l', w') \<Rightarrow>
      if ok then lfd l' = d \<and> open_fds w' = insert d (open_fds w) \<and>
        Listener_Close l' w' = (l\<lparr> lfd := -1, lpath := [] \<rparr>,
          \<lparr> open_fds = open_fds w, socket_files = socket_files w - {path} \<rparr>)
      else l' = l \<and> open_fds w' = open_fds w"
    using assms by (auto simp: Listen_def Listener_Close_def sys_close_def sys_unlink_def Let_def)
  show "case ConnectUnixSocket conn rc so_ok path w of
       None \<Rightarrow> True
     | Some (st, out, w') \<Rightarrow> (st = IoOk \<longleftrightarrow> out \<noteq> None) \<and>
         open_fds w' = (if st = IoOk then insert (fd conn) (open_fds w) else open_fds w)"
    using assms
    by (auto simp: ConnectUnixSocket_def sys_close_def Let_def split: option.split prod.split)
qed

theorem descriptors_not_leaked_witness:
  "case Listen 3 True True ''/tmp/a'' \<lparr>lfd = -1, lpath = [], lpolls = [], accepts = []\<rparr>
      \<lparr>open_fds = {0, 1, 2}, socket_files = {''/tmp/a''}\<rparr> of (ok, l', w') \<Rightarrow>
      ok \<and> open_fds w' = {3, 0, 1, 2} \<and> open_fds (snd (Listener_Close l' w')) = {0, 1, 2}"
  using descriptors_not_leaked [where d = 3 and conn = "sample_socket []" and path = "''/tmp/a''"
      and w = "\<lparr>open_fds = {0, 1, 2}, socket_files = {''/tmp/a''}\<rparr>" and bind_ok = True and listen_ok = True
      and l = "\<lparr>lfd = -1, lpath = [], lpolls = [], accepts = []\<rparr>"]
  by (simp add: sample_socket_def Listen_def sun_path_size_def Let_def sys_unlink_def)

end
