(* ===== verification/Logger.thy ===== *)
theory Logger
  imports Prelude
begin

text \<open>
  The level-filtered logger (\<open>mini-ics/include/mini_ics/logger.hpp\<close>,
  \<open>mini-ics/src/logger.cpp\<close>). Standard output is the list of lines written so far; the format
  \<open>[%s][%08llu ns][TXN %lld] %s\<close> is spelled out. The other components use the logger for
  diagnostics only and never read it back, so their models do not carry its output.
\<close>

section \<open>Levels\<close>

datatype LogLevel = LogError | LogWarn | LogInfo | LogDebug | LogTrace

fun level_rank :: "LogLevel \<Rightarrow> nat" where
  "level_rank LogError = 0"
| "level_rank LogWarn = 1"
| "level_rank LogInfo = 2"
| "level_rank LogDebug = 3"
| "level_rank LogTrace = 4"

instantiation LogLevel :: linorder
begin

definition less_eq_LogLevel :: "LogLevel \<Rightarrow> LogLevel \<Rightarrow> bool" where
  "a \<le> b \<longleftrightarrow> level_rank a \<le> level_rank b"

definition less_LogLevel :: "LogLevel \<Rightarrow> LogLevel \<Rightarrow> bool" where
  "a < b \<longleftrightarrow> level_rank a < level_rank b"

instance
proof
  have inj: "level_rank a = level_rank b \<Longrightarrow> a = b" for a b
    by (cases a; cases b; simp)
  fix a b c :: LogLevel
  show "a < b \<longleftrightarrow> a \<le> b \<and> \<not> b \<le> a" "a \<le> a" "a \<le> b \<or> b \<le> a"
    by (auto simp: less_eq_LogLevel_def less_LogLevel_def)
  show "a \<le> b \<Longrightarrow> b \<le> c \<Longrightarrow> a \<le> c" by (simp add: less_eq_LogLevel_def)
  show "a \<le> b \<Longrightarrow> b \<le> a \<Longrightarrow> a = b" by (auto simp: less_eq_LogLevel_def intro: inj)
qed

end

fun ToString_LogLevel :: "LogLevel \<Rightarrow> string" where
  "ToString_LogLevel LogError = ''ERROR''"
| "ToString_LogLevel LogWarn = ''WARN''"
| "ToString_LogLevel LogInfo = ''INFO''"
| "ToString_LogLevel LogDebug = ''DEBUG''"
| "ToString_LogLevel LogTrace = ''TRACE''"

text \<open>\<open>std::tolower\<close> in the C locale.\<close>

definition tolower :: "char \<Rightarrow> char" where
  "tolower c = (if 65 \<le> (of_char c :: nat) \<and> (of_char c :: nat) \<le> 90 then char_of (of_char c + 32 :: nat) else c)"

definition LogLevelFromString :: "string \<Rightarrow> LogLevel" where
  "LogLevelFromString name =
     (let lower = map tolower name
      in if lower = ''error'' then LogError
         else if lower = ''warn'' \<or> lower = ''warning'' then LogWarn
         else if lower = ''debug'' then LogDebug
         else if lower = ''trace'' then LogTrace
         else LogInfo)"

section \<open>The logger\<close>

record Logger =
  level :: LogLevel
  stdout :: "string list"

definition new_Logger :: Logger where
  "new_Logger = \<lparr> level = LogInfo, stdout = [] \<rparr>"

definition SetLevel :: "LogLevel \<Rightarrow> Logger \<Rightarrow> Logger" where
  "SetLevel l lg = lg\<lparr> level := l \<rparr>"

definition pad_source :: "string \<Rightarrow> string" where
  "pad_source src = (if length src < 4 then src @ replicate (4 - length src) CHR '' '' else src)"

definition pad8 :: "string \<Rightarrow> string" where
  "pad8 s = replicate (8 - length s) CHR ''0'' @ s"

definition signed_dec :: "int \<Rightarrow> string" where
  "signed_dec i = (if i < 0 then CHR ''-'' # dec_string (nat (- i)) else dec_string (nat i))"

definition Log_txn :: "LogLevel \<Rightarrow> string \<Rightarrow> u64 \<Rightarrow> u64 \<Rightarrow> string \<Rightarrow> Logger \<Rightarrow> Logger" where
  "Log_txn l source ts txn msg lg =
     (if l > level lg then lg
      else lg\<lparr> stdout := stdout lg @
        [''['' @ pad_source source @ '']['' @ pad8 (dec_string (unat ts)) @ '' ns][TXN '' @
         signed_dec (sint txn) @ ''] '' @ msg @ [CHR 0x0A]] \<rparr>)"

definition Log_notxn :: "LogLevel \<Rightarrow> string \<Rightarrow> u64 \<Rightarrow> string \<Rightarrow> Logger \<Rightarrow> Logger" where
  "Log_notxn l source ts msg lg =
     (if l > level lg then lg
      else lg\<lparr> stdout := stdout lg @
        [''['' @ pad_source source @ '']['' @ pad8 (dec_string (unat ts)) @ '' ns] '' @ msg @ [CHR 0x0A]] \<rparr>)"

datatype log_call = CallTxn LogLevel string u64 u64 string | CallNoTxn LogLevel string u64 string

fun log_call_level :: "log_call \<Rightarrow> LogLevel" where
  "log_call_level (CallTxn l _ _ _ _) = l"
| "log_call_level (CallNoTxn l _ _ _) = l"

fun log_step :: "log_call \<Rightarrow> Logger \<Rightarrow> Logger" where
  "log_step (CallTxn l src ts txn msg) lg = Log_txn l src ts txn msg lg"
| "log_step (CallNoTxn l src ts msg) lg = Log_notxn l src ts msg lg"

section \<open>Facts\<close>

lemma level_log_step [simp]: "level (log_step c lg) = level lg"
  by (cases c) (simp_all add: Log_txn_def Log_notxn_def)

lemma log_step_dropped: "log_call_level c > level lg \<Longrightarrow> log_step c lg = lg"
  by (cases c) (simp_all add: Log_txn_def Log_notxn_def)

lemma log_step_kept:
  "log_call_level c \<le> level lg \<Longrightarrow> \<exists>line. stdout (log_step c lg) = stdout lg @ [line]"
  by (cases c) (auto simp: Log_txn_def Log_notxn_def not_less)

lemma fold_log_step:
  "fold log_step cs lg = fold log_step (filter (\<lambda>c. log_call_level c \<le> level lg) cs) lg"
  by (induction cs arbitrary: lg) (simp_all add: log_step_dropped not_le)

lemma length_fold_log_step:
  "\<forall>c\<in>set cs. log_call_level c \<le> level lg \<Longrightarrow>
     length (stdout (fold log_step cs lg)) = length (stdout lg) + length cs"
proof (induction cs arbitrary: lg)
  case (Cons c cs)
  then have "length (stdout (log_step c lg)) = Suc (length (stdout lg))"
    using log_step_kept [of c lg] by auto
  with Cons show ?case by simp
qed simp

section \<open>Properties of the logger\<close>

text \<open>
  The level names round-trip. \<open>LogLevelFromString\<close> reads back every printed level name,
  ignores the case of its argument, and answers \<open>LogInfo\<close> for a word that is no level name.
\<close>

theorem log_level_roundtrip:
  "LogLevelFromString (ToString_LogLevel l) = l \<and>
   LogLevelFromString (map tolower name) = LogLevelFromString name \<and>
   LogLevelFromString ''verbose'' = LogInfo"
proof (intro conjI)
  show "LogLevelFromString (ToString_LogLevel l) = l"
    by (cases l; simp only: ToString_LogLevel.simps; code_simp)
  have "tolower (tolower c) = tolower c" for c by (simp add: tolower_def)
  then show "LogLevelFromString (map tolower name) = LogLevelFromString name"
    by (simp add: LogLevelFromString_def o_def)
  show "LogLevelFromString ''verbose'' = LogInfo" by code_simp
qed

text \<open>
  Filtering is exact. Over any sequence of log calls the output is what the calls at or below
  the configured level alone would have written, exactly one line for each of them.
\<close>

theorem log_filter_exact:
  "fold log_step cs lg = fold log_step (filter (\<lambda>c. log_call_level c \<le> level lg) cs) lg \<and>
   length (stdout (fold log_step cs lg)) =
     length (stdout lg) + length (filter (\<lambda>c. log_call_level c \<le> level lg) cs)"
  using fold_log_step [of cs lg]
    length_fold_log_step [of "filter (\<lambda>c. log_call_level c \<le> level lg) cs" lg] by simp

end
