(* ===== verification/Server.thy ===== *)
theory Server
  imports Transaction Sockets
begin

text \<open>
  The transaction server (\<open>mini-ics/include/mini_ics/server.hpp\<close>, \<open>mini-ics/src/server.cpp\<close>):
  one client connection, the HELLO handshake, an I/O thread that parses messages off the socket and
  routes them to the inbound queue or to the waiter of a pending request, and the calls of the
  simulator thread (\<open>PollInbound\<close>, \<open>SendResponse\<close>, \<open>SendRequestToHost\<close>).

  One iteration of the I/O thread's loop is one step (\<open>IoThreadBody\<close>); \<open>None\<close> means that it is still
  blocked in a system call. The simulator thread's blocking calls are interleaved with such steps, in
  every possible way, through the batches of \<open>cv_wait\<close>. The writes of the two threads are serialised by
  \<open>send_mutex_\<close>, so a send is one step as well. Time-outs are outcomes in the socket scripts. Logging is
  left out.
\<close>

section \<open>State\<close>

record MiniIcsServer =
  socket_path :: string
  io_timeout_ms :: int
  request_timeout_ms :: int
  listener :: UnixListener
  client_socket :: UnixSocket
  io_thread :: bool
  running :: bool
  has_client :: bool
  stop_requested :: bool
  txn_gen :: TransactionIdGenerator
  inbound_queue :: "Message BlockingQueue"
  pending :: PendingRequestTable

definition new_MiniIcsServer :: "string \<Rightarrow> int \<Rightarrow> int \<Rightarrow> UnixListener \<Rightarrow> MiniIcsServer" where
  "new_MiniIcsServer path io_ms req_ms l =
     \<lparr> socket_path = path, io_timeout_ms = io_ms, request_timeout_ms = req_ms, listener = l,
       client_socket = no_socket, io_thread = False, running = False, has_client = False,
       stop_requested = False, txn_gen = new_TransactionIdGenerator 1,
       inbound_queue = new_BlockingQueue, pending = new_PendingRequestTable \<rparr>"

definition put_queue :: "Message BlockingQueue \<Rightarrow> MiniIcsServer \<Rightarrow> MiniIcsServer" where
  "put_queue q srv = srv\<lparr> inbound_queue := q \<rparr>"

definition put_pending :: "PendingRequestTable \<Rightarrow> MiniIcsServer \<Rightarrow> MiniIcsServer" where
  "put_pending p srv = srv\<lparr> pending := p \<rparr>"

section \<open>Receiving one message\<close>

text \<open>
  The sequence that the handshake, the I/O loop and the host client all perform: read the 64 header
  bytes, parse them, read the announced payload, stopping at the first failure.
\<close>

datatype recv_outcome =
  HeaderIo IoStatus | HeaderBad CodecError | PayloadIo IoStatus | Received Message

definition recv_message :: "UnixSocket \<Rightarrow> (recv_outcome \<times> UnixSocket) option" where
  "recv_message s =
     (case RecvAll (replicate kHeaderSize 0) s of
        None \<Rightarrow> None
      | Some (st, hdr_buf, s) \<Rightarrow>
          if st \<noteq> IoOk then Some (HeaderIo st, s)
          else case DeserializeHeader hdr_buf of
                 Inl err \<Rightarrow> Some (HeaderBad err, s)
               | Inr hdr \<Rightarrow>
                   if payload_len hdr > 0 then
                     case RecvAll (replicate (unat (payload_len hdr)) 0) s of
                       None \<Rightarrow> None
                     | Some (st, pl, s) \<Rightarrow>
                         if st \<noteq> IoOk then Some (PayloadIo st, s)
                         else Some (Received \<lparr> header = hdr, payload = pl \<rparr>, s)
                   else Some (Received \<lparr> header = hdr, payload = [] \<rparr>, s))"

section \<open>The I/O thread\<close>

definition HandleHello :: "Message \<Rightarrow> MiniIcsServer \<Rightarrow> (bool \<times> MiniIcsServer) option" where
  "HandleHello msg srv =
     (if Type (header msg) \<noteq> kHello then Some (False, srv)
      else
        let ack = MakeHeader kHelloAck (txn_id (header msg)) 0 0 kSuccess
                    (sim_timestamp (header msg)) 0 kFlagIsResponse 0
        in case SendAll (SerializeMessage ack []) (client_socket srv) of
             None \<Rightarrow> None
           | Some (st, s) \<Rightarrow> Some (st = IoOk, srv\<lparr> client_socket := s \<rparr>))"

definition DispatchIncoming :: "Message \<Rightarrow> MiniIcsServer \<Rightarrow> MiniIcsServer" where
  "DispatchIncoming msg srv =
     (if Type (header msg) = kDmaReadRsp \<or> Type (header msg) = kDmaWriteRsp
      then srv\<lparr> pending := snd (Complete (txn_id (header msg)) msg (pending srv)) \<rparr>
      else srv\<lparr> inbound_queue := Push msg (inbound_queue srv) \<rparr>)"

definition close_client :: "MiniIcsServer \<Rightarrow> MiniIcsServer" where
  "close_client srv = srv\<lparr> client_socket := Close (client_socket srv) \<rparr>"

definition drop_client :: "MiniIcsServer \<Rightarrow> MiniIcsServer" where
  "drop_client srv = (close_client srv)\<lparr> has_client := False \<rparr>"

definition IoThread_accept :: "MiniIcsServer \<Rightarrow> MiniIcsServer option" where
  "IoThread_accept srv =
     (case Accept (listener srv) of
        None \<Rightarrow> None
      | Some (st, accepted, l) \<Rightarrow>
          let srv = srv\<lparr> listener := l \<rparr>
          in case accepted of
               None \<Rightarrow> Some srv
             | Some conn \<Rightarrow>
                 (case recv_message conn of
                    None \<Rightarrow> None
                  | Some (Received hello_msg, s) \<Rightarrow>
                      (case HandleHello hello_msg (srv\<lparr> client_socket := s \<rparr>) of
                         None \<Rightarrow> None
                       | Some (ok, srv) \<Rightarrow>
                           Some (if ok then srv\<lparr> has_client := True \<rparr> else close_client srv))
                  | Some (_, s) \<Rightarrow> Some (close_client (srv\<lparr> client_socket := s \<rparr>))))"

definition IoThread_receive :: "MiniIcsServer \<Rightarrow> MiniIcsServer option" where
  "IoThread_receive srv =
     (case WaitReadable (client_socket srv) of
        None \<Rightarrow> None
      | Some (wait, s) \<Rightarrow>
          if wait = IoTimeout then Some (srv\<lparr> client_socket := s \<rparr>)
          else if wait \<noteq> IoOk then Some (drop_client (srv\<lparr> client_socket := s \<rparr>))
          else case recv_message s of
                 None \<Rightarrow> None
               | Some (Received msg, s) \<Rightarrow>
                   let srv = srv\<lparr> client_socket := s \<rparr>
                   in if Type (header msg) = kShutdown
                      then Some (drop_client (srv\<lparr> inbound_queue := Push msg (inbound_queue srv) \<rparr>))
                      else Some (DispatchIncoming msg srv)
               | Some (_, s) \<Rightarrow> Some (drop_client (srv\<lparr> client_socket := s \<rparr>)))"

definition IoThreadBody :: "MiniIcsServer \<Rightarrow> MiniIcsServer option" where
  "IoThreadBody srv = (if \<not> has_client srv then IoThread_accept srv else IoThread_receive srv)"

text \<open>The loop of the I/O thread, observed for at most \<open>n\<close> iterations.\<close>

fun IoThreadMain :: "nat \<Rightarrow> MiniIcsServer \<Rightarrow> MiniIcsServer option" where
  "IoThreadMain 0 srv = Some srv"
| "IoThreadMain (Suc n) srv =
     (if running srv \<and> \<not> stop_requested srv
      then case IoThreadBody srv of None \<Rightarrow> None | Some srv' \<Rightarrow> IoThreadMain n srv'
      else Some srv)"

section \<open>Starting and stopping\<close>

definition Start :: "int \<Rightarrow> bool \<Rightarrow> bool \<Rightarrow> MiniIcsServer \<Rightarrow> os \<Rightarrow> bool \<times> MiniIcsServer \<times> os" where
  "Start d bind_ok listen_ok srv w =
     (case Listen d bind_ok listen_ok (socket_path srv) (listener srv) w of
        (ok, l, w) \<Rightarrow>
          if \<not> ok then (False, srv\<lparr> listener := l \<rparr>, w)
          else (True, srv\<lparr> listener := l, running := True, stop_requested := False, io_thread := True \<rparr>, w))"

definition Stop_signal :: "MiniIcsServer \<Rightarrow> MiniIcsServer" where
  "Stop_signal srv =
     (if \<not> running srv then srv
      else srv\<lparr> running := False, stop_requested := True,
                inbound_queue := Shutdown (inbound_queue srv), pending := CancelAll (pending srv) \<rparr>)"

text \<open>
  \<open>Stop\<close> signals, waits for the I/O thread and closes both sockets. Joining lets the I/O thread finish
  the iteration it is in (\<open>busy\<close>).
\<close>

definition Stop :: "bool \<Rightarrow> MiniIcsServer \<Rightarrow> os \<Rightarrow> (MiniIcsServer \<times> os) option" where
  "Stop busy srv w =
     (if \<not> running srv then Some (srv\<lparr> io_thread := False \<rparr>, w)
      else case (if busy then IoThreadBody (Stop_signal srv) else Some (Stop_signal srv)) of
             None \<Rightarrow> None
           | Some srv \<Rightarrow>
               (case Listener_Close (listener srv) w of
                  (l, w) \<Rightarrow> Some (close_client (srv\<lparr> io_thread := False, listener := l \<rparr>), w)))"

section \<open>The simulator side\<close>

datatype server_op = OpIo | OpStop

fun server_step :: "server_op \<Rightarrow> MiniIcsServer \<Rightarrow> MiniIcsServer" where
  "server_step OpIo srv =
     (if running srv \<and> \<not> stop_requested srv
      then case IoThreadBody srv of None \<Rightarrow> srv | Some srv' \<Rightarrow> srv'
      else srv)"
| "server_step OpStop srv = Stop_signal srv"

definition PollInbound :: "server_op list list \<Rightarrow> MiniIcsServer \<Rightarrow> Message option \<times> MiniIcsServer" where
  "PollInbound bs srv = Pop_in inbound_queue put_queue server_step bs srv"

definition SendResponse :: "Header \<Rightarrow> bytes \<Rightarrow> MiniIcsServer \<Rightarrow> (bool \<times> MiniIcsServer) option" where
  "SendResponse hdr pl srv =
     (if \<not> has_client srv then Some (False, srv)
      else case SendAll (SerializeMessage hdr pl) (client_socket srv) of
             None \<Rightarrow> None
           | Some (st, s) \<Rightarrow> Some (st = IoOk, srv\<lparr> client_socket := s \<rparr>))"

text \<open>
  \<open>SendRequestToHost\<close> returns the transaction id it stored through \<open>out_txn_id\<close> (none if it did not
  get that far), the response, and the new state.
\<close>

definition SendRequestToHost ::
  "MessageType \<Rightarrow> u64 \<Rightarrow> u64 \<Rightarrow> bytes \<Rightarrow> u32 \<Rightarrow> u64 \<Rightarrow> bool \<Rightarrow> server_op list list \<Rightarrow> MiniIcsServer
     \<Rightarrow> (u64 option \<times> Message option \<times> MiniIcsServer) option" where
  "SendRequestToHost type addr be pl tlen ts expect_response bs srv =
     (if \<not> has_client srv then Some (None, None, srv)
      else
        let (txn, g) = Next (txn_gen srv);
            srv = srv\<lparr> txn_gen := g \<rparr>;
            srv = (if expect_response then put_pending (RegisterPending txn (pending srv)) srv else srv);
            hdr = MakeHeader type txn addr be kSuccess ts (of_nat (length pl)) kFlagNone tlen
        in case SendAll (SerializeMessage hdr pl) (client_socket srv) of
             None \<Rightarrow> None
           | Some (st, s) \<Rightarrow>
               let srv = srv\<lparr> client_socket := s \<rparr>
               in if st \<noteq> IoOk then
                    Some (Some txn, None,
                      if expect_response
                      then snd (WaitFor_in pending put_pending server_step txn [] srv) else srv)
                  else if \<not> expect_response then Some (Some txn, None, srv)
                  else
                    let (rsp, srv) = WaitFor_in pending put_pending server_step txn bs srv
                    in Some (Some txn, rsp, srv))"

section \<open>The queue and the table as parts of the server\<close>

interpretation srv_queue: queue_part inbound_queue put_queue
  by unfold_locales (simp_all add: put_queue_def)

interpretation srv_table: table_part pending put_pending
  by unfold_locales (simp_all add: put_pending_def)

section \<open>Framing\<close>

definition wire :: "Message \<Rightarrow> bytes" where
  "wire m = SerializeMessage (header m) (payload m)"

lemma length_wire [simp]: "length (wire m) = 64 + length (payload m)"
  by (simp add: wire_def SerializeMessage_def)

lemma recv_message_Received:
  assumes "recv_message s = Some (Received m, s')"
  shows "valid_message m" "rx s = wire m @ rx s'" "tx s' = tx s" "fd s' = fd s"
proof -
  from assms obtain buf s1 h where r1: "RecvAll (replicate kHeaderSize 0) s = Some (IoOk, buf, s1)"
    and h: "DeserializeHeader buf = Inr h"
    by (auto simp: recv_message_def split: option.splits prod.splits if_splits sum.splits)
  from RecvAll_ok [OF r1] have buf: "buf = take 64 (rx s)" "rx s1 = drop 64 (rx s)" "64 \<le> length (rx s)"
    "tx s1 = tx s" "fd s1 = fd s" by (simp_all add: kHeaderSize_def)
  from DeserializeHeader_Inr [OF h] buf have hd: "SerializeHeader h = take 64 (rx s)" "valid_header h"
    by simp_all
  have "valid_message m \<and> rx s = wire m @ rx s' \<and> tx s' = tx s \<and> fd s' = fd s"
  proof (cases "payload_len h > 0")
    case False
    with assms r1 h have "m = \<lparr>header = h, payload = []\<rparr>" "s' = s1" by (simp_all add: recv_message_def)
    with False hd buf show ?thesis
      by (simp add: valid_message_def wire_def SerializeMessage_def word_gt_0)
  next
    case True
    with assms r1 h obtain pl where r2: "RecvAll (replicate (unat (payload_len h)) 0) s1 = Some (IoOk, pl, s')"
      and m: "m = \<lparr>header = h, payload = pl\<rparr>"
      by (auto simp: recv_message_def split: option.splits if_splits)
    from RecvAll_ok [OF r2] m hd buf show ?thesis
      by (simp add: valid_message_def wire_def SerializeMessage_def)
        (metis append_take_drop_id drop_drop)
  qed
  then show "valid_message m" "rx s = wire m @ rx s'" "tx s' = tx s" "fd s' = fd s" by blast+
qed

lemma recv_message_frame:
  assumes "recv_message s = Some (r, s')"
  shows "tx s' = tx s \<and> fd s' = fd s"
  using assms
  by (auto simp: recv_message_def split: option.splits prod.splits if_splits sum.splits
      dest!: RecvAll_result)

lemma recv_message_cooperative:
  assumes "valid_message m" "rx s = wire m @ rest" "cooperative (64 + length (payload m) + n) k s"
  shows "\<exists>s'. recv_message s = Some (Received m, s') \<and> rx s' = rest \<and> cooperative n k s' \<and>
     tx s' = tx s \<and> fd s' = fd s"
proof -
  let ?h = "header m"
  have valid: "valid_header ?h" and len: "unat (payload_len ?h) = length (payload m)"
    using assms(1) by (simp_all add: valid_message_def)
  have rx: "rx s = SerializeHeader ?h @ payload m @ rest"
    using assms(2) by (simp add: wire_def SerializeMessage_def)
  then have "64 \<le> length (rx s)" by simp
  with RecvAll_cooperative [OF assms(3), of "replicate 64 0"] obtain s1 where
    r1: "RecvAll (replicate 64 0) s = Some (IoOk, take 64 (rx s), s1)" and
    s1: "cooperative (length (payload m) + n) k s1" "rx s1 = drop 64 (rx s)" "tx s1 = tx s" "fd s1 = fd s"
    by auto
  have h: "take 64 (rx s) = SerializeHeader ?h" "rx s1 = payload m @ rest"
    using rx s1(2) by simp_all
  have parse: "DeserializeHeader (SerializeHeader ?h) = Inr ?h"
    using DeserializeHeader_append [OF valid, of "[]"] by simp
  show ?thesis
  proof (cases "payload_len ?h > 0")
    case False
    then have "payload m = []" using len by (simp add: word_gt_0)
    with False r1 h parse s1 show ?thesis
      by (cases m) (auto simp: recv_message_def kHeaderSize_def)
  next
    case True
    with RecvAll_cooperative [OF s1(1), of "replicate (length (payload m)) 0"] h obtain s2 where
      r2: "RecvAll (replicate (length (payload m)) 0) s1 = Some (IoOk, payload m, s2)"
      "cooperative n k s2" "rx s2 = rest" "tx s2 = tx s1" "fd s2 = fd s1"
      by auto
    with True r1 h parse s1 len show ?thesis
      by (cases m) (auto simp: recv_message_def kHeaderSize_def)
  qed
qed

section \<open>Routing\<close>

text \<open>
  What the I/O thread promises: the sequence of messages queued for the simulator and the table of
  pending requests evolve message by message as \<open>route\<close> says.
\<close>

definition is_dma_rsp :: "Message \<Rightarrow> bool" where
  "is_dma_rsp m \<longleftrightarrow> Type (header m) = kDmaReadRsp \<or> Type (header m) = kDmaWriteRsp"

definition route :: "Message \<Rightarrow> Message list \<times> PendingRequestTable \<Rightarrow> Message list \<times> PendingRequestTable" where
  "route m = (\<lambda>(q, p).
     if is_dma_rsp m
     then (q, if p (txn_id (header m)) = None then p else p(txn_id (header m) \<mapsto> Some m))
     else (q @ [m], p))"

definition abs_server :: "MiniIcsServer \<Rightarrow> Message list \<times> PendingRequestTable" where
  "abs_server srv = (queue (inbound_queue srv), pending srv)"

lemma abs_server_simps [simp]:
  "abs_server (srv\<lparr>client_socket := s\<rparr>) = abs_server srv"
  "abs_server (srv\<lparr>listener := l\<rparr>) = abs_server srv"
  "abs_server (srv\<lparr>has_client := b\<rparr>) = abs_server srv"
  "abs_server (close_client srv) = abs_server srv"
  "abs_server (drop_client srv) = abs_server srv"
  by (simp_all add: abs_server_def close_client_def drop_client_def)

lemma DispatchIncoming_abs: "abs_server (DispatchIncoming m srv) = route m (abs_server srv)"
  by (auto simp: abs_server_def DispatchIncoming_def route_def is_dma_rsp_def Complete_cases bq.contents_push)

lemma DispatchIncoming_frame [simp]:
  "client_socket (DispatchIncoming m srv) = client_socket srv"
  "has_client (DispatchIncoming m srv) = has_client srv"
  "running (DispatchIncoming m srv) = running srv"
  "stop_requested (DispatchIncoming m srv) = stop_requested srv"
  "listener (DispatchIncoming m srv) = listener srv"
  "txn_gen (DispatchIncoming m srv) = txn_gen srv"
  by (simp_all add: DispatchIncoming_def)

lemma Push_abs:
  "abs_server (srv\<lparr>inbound_queue := Push m (inbound_queue srv)\<rparr>) = (queue (inbound_queue srv) @ [m], pending srv)"
  by (simp add: abs_server_def bq.contents_push)

lemma WaitReadable_frame:
  "WaitReadable s = Some (st, s') \<Longrightarrow> rx s' = rx s \<and> tx s' = tx s \<and> fd s' = fd s"
  by (auto simp: WaitReadable_def)

lemma IoThread_receive_cases:
  assumes "IoThread_receive srv = Some srv'"
  obtains (idle) s where "srv' = srv\<lparr>client_socket := s\<rparr>" "rx s = rx (client_socket srv)"
      "fd s = fd (client_socket srv)"
  | (lost) s where "srv' = drop_client (srv\<lparr>client_socket := s\<rparr>)"
  | (message) m s where "srv' = DispatchIncoming m (srv\<lparr>client_socket := s\<rparr>)" "valid_message m"
      "rx (client_socket srv) = wire m @ rx s" "Type (header m) \<noteq> kShutdown" "fd s = fd (client_socket srv)"
  | (goodbye) m s where "srv' = drop_client (srv\<lparr>client_socket := s, inbound_queue := Push m (inbound_queue srv)\<rparr>)"
      "valid_message m" "rx (client_socket srv) = wire m @ rx s" "Type (header m) = kShutdown"
proof -
  from assms obtain wait s where w: "WaitReadable (client_socket srv) = Some (wait, s)"
    by (auto simp: IoThread_receive_def split: option.splits)
  note frame = WaitReadable_frame [OF w]
  consider "wait = IoTimeout" | "wait \<noteq> IoTimeout" "wait \<noteq> IoOk" | "wait = IoOk" by blast
  then show thesis
  proof cases
    case 1
    with assms w frame show thesis by (intro idle [of s]) (auto simp: IoThread_receive_def)
  next
    case 2
    with assms w show thesis by (intro lost [of s]) (auto simp: IoThread_receive_def)
  next
    case 3
    with assms w obtain r s2 where r: "recv_message s = Some (r, s2)"
      by (auto simp: IoThread_receive_def split: option.splits)
    show thesis
    proof (cases r)
      case (Received m)
      note m = recv_message_Received [OF r [unfolded Received]]
      show thesis
      proof (cases "Type (header m) = kShutdown")
        case True
        with assms w 3 r Received m frame show thesis
          by (intro goodbye [of m s2]) (auto simp: IoThread_receive_def Let_def)
      next
        case False
        with assms w 3 r Received m frame show thesis
          by (intro message [of m s2]) (auto simp: IoThread_receive_def Let_def)
      qed
    qed (use assms w 3 r in \<open>auto simp: IoThread_receive_def intro: lost\<close>)
  qed
qed

lemma IoThread_receive_sound:
  assumes "IoThread_receive srv = Some srv'" "has_client srv"
  shows "(\<exists>m. valid_message m \<and> rx (client_socket srv) = wire m @ rx (client_socket srv') \<and>
            abs_server srv' = route m (abs_server srv) \<and>
            has_client srv' = (Type (header m) \<noteq> kShutdown)) \<or>
         (abs_server srv' = abs_server srv \<and>
            (if has_client srv' then rx (client_socket srv') = rx (client_socket srv)
             else \<not> IsValid (client_socket srv')))"
  using assms(1)
proof (cases rule: IoThread_receive_cases)
  case (idle s)
  with assms(2) show ?thesis by simp
next
  case (lost s)
  then show ?thesis by (simp add: drop_client_def close_client_def)
next
  case (message m s)
  with assms(2) show ?thesis by (intro disjI1 exI [of _ m]) (simp add: DispatchIncoming_abs)
next
  case (goodbye m s)
  then have "abs_server (srv\<lparr>client_socket := s, inbound_queue := Push m (inbound_queue srv)\<rparr>)
      = route m (abs_server srv)"
    by (simp add: abs_server_def bq.contents_push route_def is_dma_rsp_def)
  with goodbye show ?thesis
    by (intro disjI1 exI [of _ m]) (simp add: drop_client_def close_client_def abs_server_def)
qed

lemma IoThread_receive_frame:
  assumes "IoThread_receive srv = Some srv'" "has_client srv"
  shows "listener srv' = listener srv \<and> txn_gen srv' = txn_gen srv \<and> stop_requested srv' = stop_requested srv \<and>
    (has_client srv' \<longrightarrow> fd (client_socket srv') = fd (client_socket srv))"
  using assms(1)
  by (cases rule: IoThread_receive_cases) (auto simp: drop_client_def close_client_def)

lemma IoThread_receive_cooperative:
  assumes "valid_message m" "rx (client_socket srv) = wire m @ rest"
    and "cooperative (65 + length (payload m) + n) k (client_socket srv)" "Type (header m) \<noteq> kShutdown"
  shows "\<exists>s. IoThread_receive srv = Some (DispatchIncoming m (srv\<lparr>client_socket := s\<rparr>)) \<and>
     rx s = rest \<and> cooperative n k s \<and> tx s = tx (client_socket srv) \<and> fd s = fd (client_socket srv)"
proof -
  from assms(3) have "cooperative (Suc (64 + length (payload m) + n)) k (client_socket srv)" by (simp add: add.assoc)
  from cooperative_WaitReadable [OF this] obtain s1 where
    w: "WaitReadable (client_socket srv) = Some (IoOk, s1)" "cooperative (64 + length (payload m) + n) k s1"
      "rx s1 = rx (client_socket srv)" "tx s1 = tx (client_socket srv)" "fd s1 = fd (client_socket srv)"
    by blast
  with recv_message_cooperative [OF assms(1) _ w(2)] assms(2) obtain s2 where
    "recv_message s1 = Some (Received m, s2)" "rx s2 = rest" "cooperative n k s2" "tx s2 = tx s1" "fd s2 = fd s1"
    by auto
  with w assms(4) show ?thesis by (auto simp: IoThread_receive_def)
qed

definition stream_cost :: "Message list \<Rightarrow> nat" where
  "stream_cost msgs = sum_list (map (\<lambda>m. 65 + length (payload m)) msgs)"

lemma IoThreadMain_stream:
  assumes "running srv" "\<not> stop_requested srv" "has_client srv"
    and "\<forall>m\<in>set msgs. valid_message m \<and> Type (header m) \<noteq> kShutdown"
    and "rx (client_socket srv) = concat (map wire msgs) @ rest"
    and "cooperative (stream_cost msgs + n) k (client_socket srv)"
  shows "\<exists>srv'. IoThreadMain (length msgs) srv = Some srv' \<and>
     abs_server srv' = fold route msgs (abs_server srv) \<and> has_client srv' \<and>
     rx (client_socket srv') = rest \<and> tx (client_socket srv') = tx (client_socket srv) \<and>
     cooperative n k (client_socket srv') \<and> running srv' \<and> \<not> stop_requested srv' \<and> txn_gen srv' = txn_gen srv"
  using assms
proof (induction msgs arbitrary: srv)
  case Nil
  then show ?case by (simp add: stream_cost_def)
next
  case (Cons m msgs)
  have "cooperative (65 + length (payload m) + (stream_cost msgs + n)) k (client_socket srv)"
    using Cons.prems(6) by (simp add: stream_cost_def add.assoc)
  from IoThread_receive_cooperative [OF _ _ this] Cons.prems obtain s where
    s: "IoThread_receive srv = Some (DispatchIncoming m (srv\<lparr>client_socket := s\<rparr>))"
      "rx s = concat (map wire msgs) @ rest" "cooperative (stream_cost msgs + n) k s"
      "tx s = tx (client_socket srv)"
    by auto
  let ?srv1 = "DispatchIncoming m (srv\<lparr>client_socket := s\<rparr>)"
  from Cons.IH [of ?srv1] Cons.prems s obtain srv' where
    "IoThreadMain (length msgs) ?srv1 = Some srv'"
    "abs_server srv' = fold route msgs (abs_server ?srv1)" "has_client srv'"
    "rx (client_socket srv') = rest" "tx (client_socket srv') = tx s" "cooperative n k (client_socket srv')"
    "running srv'" "\<not> stop_requested srv'" "txn_gen srv' = txn_gen srv"
    by auto
  with s Cons.prems show ?case by (auto simp: IoThreadBody_def DispatchIncoming_abs)
qed

section \<open>Invariants of the server\<close>

text \<open>
  Every stored response answers the id it is stored under, and is a DMA response.
\<close>

definition correlated :: "PendingRequestTable \<Rightarrow> bool" where
  "correlated p \<longleftrightarrow> (\<forall>t m. p t = Some (Some m) \<longrightarrow> txn_id (header m) = t \<and> is_dma_rsp m)"

definition server_inv :: "MiniIcsServer \<Rightarrow> bool" where
  "server_inv srv \<longleftrightarrow>
     correlated (pending srv) \<and>
     (has_client srv \<and> \<not> stop_requested srv \<longrightarrow> IsValid (client_socket srv)) \<and>
     (\<forall>s. AcceptOk s \<in> set (accepts (listener srv)) \<longrightarrow> IsValid s)"

lemma correlated_simps [simp]:
  "correlated Map.empty" "correlated p \<Longrightarrow> correlated (p(t \<mapsto> None))"
  "correlated p \<Longrightarrow> correlated (p(t := None))"
  by (auto simp: correlated_def)

lemma correlated_route: "correlated (snd x) \<Longrightarrow> correlated (snd (route m x))"
  by (cases x) (auto simp: correlated_def route_def)

lemma Accept_accepts:
  "Accept l = Some (st, r, l') \<Longrightarrow> set (accepts l') \<subseteq> set (accepts l) \<and>
     (\<forall>s. r = Some s \<longrightarrow> AcceptOk s \<in> set (accepts l))"
  by (auto simp: Accept_def split: option.splits prod.splits if_splits list.splits accept_result.splits)

lemma HandleHello_frame:
  assumes "HandleHello m srv = Some (ok, srv')"
  shows "abs_server srv' = abs_server srv \<and> listener srv' = listener srv \<and> has_client srv' = has_client srv \<and>
    fd (client_socket srv') = fd (client_socket srv) \<and> txn_gen srv' = txn_gen srv \<and>
    stop_requested srv' = stop_requested srv"
  using assms
  by (auto simp: HandleHello_def Let_def split: if_splits option.splits dest!: SendAll_result)

definition hello_ack :: "Message \<Rightarrow> Message" where
  "hello_ack hello = \<lparr> header = MakeHeader kHelloAck (txn_id (header hello)) 0 0 kSuccess
     (sim_timestamp (header hello)) 0 kFlagIsResponse 0, payload = [] \<rparr>"

lemma HandleHello_ok:
  assumes "HandleHello m srv = Some (True, srv')"
  shows "Type (header m) = kHello \<and> tx (client_socket srv') = tx (client_socket srv) @ wire (hello_ack m) \<and>
    rx (client_socket srv') = rx (client_socket srv)"
  using assms
  by (auto simp: HandleHello_def Let_def hello_ack_def wire_def split: if_splits option.splits dest!: SendAll_ok)

lemma IoThread_accept_result:
  assumes "IoThread_accept srv = Some srv'" "\<not> has_client srv"
  shows "abs_server srv' = abs_server srv \<and> txn_gen srv' = txn_gen srv \<and> stop_requested srv' = stop_requested srv \<and>
    set (accepts (listener srv')) \<subseteq> set (accepts (listener srv)) \<and>
    (if has_client srv'
     then \<exists>conn hello. AcceptOk conn \<in> set (accepts (listener srv)) \<and> fd (client_socket srv') = fd conn \<and>
       valid_message hello \<and> Type (header hello) = kHello \<and>
       rx conn = wire hello @ rx (client_socket srv') \<and>
       tx (client_socket srv') = tx conn @ wire (hello_ack hello)
     else client_socket srv' = client_socket srv \<or> \<not> IsValid (client_socket srv'))"
proof -
  from assms obtain st r l where a: "Accept (listener srv) = Some (st, r, l)"
    by (auto simp: IoThread_accept_def split: option.splits)
  note acc = Accept_accepts [OF a]
  show ?thesis
  proof (cases r)
    case None
    with assms a acc show ?thesis by (auto simp: IoThread_accept_def)
  next
    case (Some conn)
    with assms a obtain o' s1 where m: "recv_message conn = Some (o', s1)"
      by (auto simp: IoThread_accept_def Let_def split: option.splits)
    show ?thesis
    proof (cases o')
      case (Received hello)
      note rm = recv_message_Received [OF m [unfolded Received]]
      from Received assms a Some m obtain ok srv1 where
        h: "HandleHello hello (srv\<lparr>listener := l, client_socket := s1\<rparr>) = Some (ok, srv1)"
        by (auto simp: IoThread_accept_def Let_def split: option.splits)
      have srv': "srv' = (if ok then srv1\<lparr>has_client := True\<rparr> else close_client srv1)"
        using assms a Some m Received h by (simp add: IoThread_accept_def Let_def)
      from HandleHello_frame [OF h] HandleHello_ok [of hello _ srv1] h acc rm Some assms(2) show ?thesis
        by (cases ok) (auto simp: srv' close_client_def)
    qed (use assms a acc Some m in \<open>auto simp: IoThread_accept_def Let_def close_client_def\<close>)
  qed
qed

lemma IoThread_accept_frame:
  assumes "IoThread_accept srv = Some srv'" "\<not> has_client srv"
  shows "abs_server srv' = abs_server srv \<and> txn_gen srv' = txn_gen srv \<and> stop_requested srv' = stop_requested srv \<and>
    set (accepts (listener srv')) \<subseteq> set (accepts (listener srv)) \<and>
    (has_client srv' \<longrightarrow>
       (\<exists>s. AcceptOk s \<in> set (accepts (listener srv)) \<and> fd (client_socket srv') = fd s))"
  using IoThread_accept_result [OF assms] by auto

lemma IoThread_accept_completes:
  assumes "accepts (listener srv) = AcceptOk conn # as" "lpolls (listener srv) = PollReady POLLIN # ps"
    and "rx conn = wire hello @ rest" "valid_message hello" "Type (header hello) = kHello"
    and "cooperative (64 + length (payload hello) + n) (64 + k) conn"
  shows "\<exists>srv'. IoThread_accept srv = Some srv' \<and> has_client srv' \<and> running srv' = running srv \<and>
    stop_requested srv' = stop_requested srv \<and> abs_server srv' = abs_server srv \<and>
    rx (client_socket srv') = rest \<and> tx (client_socket srv') = tx conn @ wire (hello_ack hello) \<and>
    cooperative n k (client_socket srv') \<and> txn_gen srv' = txn_gen srv"
proof -
  have acc: "Accept (listener srv) = Some (IoOk, Some conn, (listener srv)\<lparr>lpolls := ps, accepts := as\<rparr>)"
    using assms(1,2) by (simp add: Accept_def POLLIN_def POLLERR_def POLLNVAL_def POLLHUP_def)
  from recv_message_cooperative [OF assms(4,3,6)] obtain s1 where
    r: "recv_message conn = Some (Received hello, s1)" "rx s1 = rest" "cooperative n (64 + k) s1" "tx s1 = tx conn"
    by blast
  from SendAll_cooperative [OF r(3), of "wire (hello_ack hello)"] obtain s2 where
    "SendAll (wire (hello_ack hello)) s1 = Some (IoOk, s2)" "cooperative n k s2"
    "tx s2 = tx s1 @ wire (hello_ack hello)" "rx s2 = rx s1"
    by (auto simp: hello_ack_def)
  with r acc assms(5) show ?thesis
    by (simp add: IoThread_accept_def HandleHello_def Let_def hello_ack_def wire_def)
qed

lemma abs_server_pending: "pending srv = snd (abs_server srv)"
  by (simp add: abs_server_def)

lemma IoThreadBody_routes:
  assumes "IoThreadBody srv = Some srv'"
  shows "abs_server srv' = abs_server srv \<or> (\<exists>m. valid_message m \<and> abs_server srv' = route m (abs_server srv))"
proof (cases "has_client srv")
  case False
  with assms IoThread_accept_frame [of srv srv'] show ?thesis by (simp add: IoThreadBody_def)
next
  case True
  with assms IoThread_receive_sound [of srv srv'] show ?thesis by (auto simp: IoThreadBody_def)
qed

lemma IoThreadBody_inv:
  assumes "server_inv srv" "IoThreadBody srv = Some srv'"
  shows "server_inv srv' \<and> txn_gen srv' = txn_gen srv \<and> stop_requested srv' = stop_requested srv"
proof (cases "has_client srv")
  case False
  with assms have "IoThread_accept srv = Some srv'" by (simp add: IoThreadBody_def)
  from IoThread_accept_frame [OF this False] assms(1) show ?thesis
    by (auto simp: server_inv_def abs_server_pending IsValid_def)
next
  case True
  with assms have r: "IoThread_receive srv = Some srv'" by (simp add: IoThreadBody_def)
  have "correlated (pending srv')"
    using IoThreadBody_routes [OF assms(2)] assms(1) by (auto simp: server_inv_def abs_server_pending correlated_route)
  with IoThread_receive_frame [OF r True] assms(1) True show ?thesis
    by (auto simp: server_inv_def IsValid_def)
qed

lemma server_step_inv: "server_inv srv \<Longrightarrow> server_inv (server_step op srv) \<and> txn_gen (server_step op srv) = txn_gen srv"
proof (cases op)
  case OpIo
  assume "server_inv srv"
  with OpIo IoThreadBody_inv [of srv] show ?thesis by (auto split: option.splits)
next
  case OpStop
  assume "server_inv srv"
  with OpStop show ?thesis by (auto simp: Stop_signal_def server_inv_def CancelAll_def)
qed

lemma fold_server_step_inv:
  "server_inv srv \<Longrightarrow> server_inv (fold server_step ops srv) \<and> txn_gen (fold server_step ops srv) = txn_gen srv"
  by (induction ops arbitrary: srv) (auto simp: server_step_inv)

section \<open>Requests to the host\<close>

lemma SendRequestToHost_wait:
  assumes "SendRequestToHost ty ad be pl xl ts True bs srv = Some (Some t, Some m, srv')"
  obtains s where "t = next_id (txn_gen srv)"
    "SendAll (SerializeMessage (MakeHeader ty t ad be kSuccess ts (of_nat (length pl)) kFlagNone xl) pl)
       (client_socket srv) = Some (IoOk, s)"
    "WaitFor_in pending put_pending server_step t bs
       (srv\<lparr>txn_gen := (txn_gen srv)\<lparr>next_id := t + 1\<rparr>, pending := RegisterPending t (pending srv), client_socket := s\<rparr>)
       = (Some m, srv')"
  using assms
  by (auto simp: SendRequestToHost_def Next_def Let_def put_pending_def
      split: if_splits option.splits prod.splits)

lemma SendRequestToHost_correlates:
  assumes "server_inv srv" "SendRequestToHost ty ad be pl xl ts True bs srv = Some (Some t, Some m, srv')"
  shows "t = next_id (txn_gen srv) \<and> txn_id (header m) = t \<and> is_dma_rsp m \<and> pending srv' t = None"
proof -
  from assms(2) obtain s where t: "t = next_id (txn_gen srv)"
    and send: "SendAll (SerializeMessage (MakeHeader ty t ad be kSuccess ts (of_nat (length pl)) kFlagNone xl) pl)
       (client_socket srv) = Some (IoOk, s)"
    and w: "WaitFor_in pending put_pending server_step t bs
       (srv\<lparr>txn_gen := (txn_gen srv)\<lparr>next_id := t + 1\<rparr>, pending := RegisterPending t (pending srv), client_socket := s\<rparr>)
       = (Some m, srv')"
    by (rule SendRequestToHost_wait)
  let ?srv = "srv\<lparr>txn_gen := (txn_gen srv)\<lparr>next_id := t + 1\<rparr>, pending := RegisterPending t (pending srv), client_socket := s\<rparr>"
  have inv: "server_inv ?srv"
    using assms(1) SendAll_ok [OF send] by (auto simp: server_inv_def RegisterPending_def IsValid_def)
  from srv_table.WaitFor_in_result [of server_step t bs ?srv m] w obtain bs1 where
    "pending (fold server_step (concat bs1) ?srv) t = Some (Some m)" by auto
  moreover have "correlated (pending (fold server_step (concat bs1) ?srv))"
    using fold_server_step_inv [OF inv] by (simp add: server_inv_def)
  moreover have "pending srv' t = None"
    using srv_table.WaitFor_in_removes [of server_step t bs ?srv] w by simp
  ultimately show ?thesis using t by (auto simp: correlated_def)
qed

lemma dom_route: "dom (snd (route m x)) = dom (snd x)"
  by (auto simp: route_def split: prod.split)

lemma IoThreadBody_dom: "IoThreadBody srv = Some srv' \<Longrightarrow> dom (pending srv') = dom (pending srv)"
  using IoThreadBody_routes [of srv srv'] by (metis abs_server_pending dom_route)

lemma server_step_dom: "dom (pending (server_step op srv)) \<subseteq> dom (pending srv)"
  by (cases op) (auto simp: Stop_signal_def CancelAll_def dest!: IoThreadBody_dom split: option.splits)

lemma fold_server_step_dom: "dom (pending (fold server_step ops srv)) \<subseteq> dom (pending srv)"
proof (induction ops arbitrary: srv)
  case (Cons op ops)
  show ?case using Cons.IH [of "server_step op srv"] server_step_dom [of op srv] by simp
qed simp

lemma WaitFor_server:
  assumes "server_inv srv"
  shows "server_inv (snd (WaitFor_in pending put_pending server_step t bs srv)) \<and>
    dom (pending (snd (WaitFor_in pending put_pending server_step t bs srv))) \<subseteq> dom (pending srv) - {t}"
proof (cases "pending srv t = None")
  case True
  with assms show ?thesis by (auto simp: WaitFor_in_def)
next
  case False
  from srv_table.WaitFor_in_wakes [OF this, of bs server_step] obtain bs1 where
    "snd (WaitFor_in pending put_pending server_step t bs srv) =
       put_pending ((pending (fold server_step (concat bs1) srv))(t := None)) (fold server_step (concat bs1) srv)"
    by (auto simp: Let_def)
  with fold_server_step_inv [OF assms, of "concat bs1"] fold_server_step_dom [of "concat bs1" srv]
  show ?thesis by (auto simp: put_pending_def server_inv_def)
qed

lemma SendRequestToHost_inv:
  assumes "server_inv srv" "SendRequestToHost ty ad be pl xl ts ex bs srv = Some (t, r, srv')"
  shows "server_inv srv' \<and> dom (pending srv') \<subseteq> dom (pending srv)"
proof (cases "has_client srv")
  case False
  with assms show ?thesis by (auto simp: SendRequestToHost_def)
next
  case True
  define x where "x = next_id (txn_gen srv)"
  define p where "p = (if ex then RegisterPending x (pending srv) else pending srv)"
  from True assms(2) obtain st s where
    send: "SendAll (SerializeMessage (MakeHeader ty x ad be kSuccess ts (of_nat (length pl)) kFlagNone xl) pl)
       (client_socket srv) = Some (st, s)"
    by (auto simp: SendRequestToHost_def Next_def Let_def put_pending_def x_def split: option.splits if_splits)
  let ?srv = "srv\<lparr>txn_gen := (txn_gen srv)\<lparr>next_id := x + 1\<rparr>, pending := p, client_socket := s\<rparr>"
  have inv: "server_inv ?srv"
    using assms(1) SendAll_result [OF send]
    by (auto simp: server_inv_def RegisterPending_def IsValid_def p_def)
  have dom: "dom (pending ?srv) - {x} \<subseteq> dom (pending srv)" "\<not> ex \<Longrightarrow> pending ?srv = pending srv"
    by (auto simp: p_def RegisterPending_def)
  from True assms(2) send have
    "srv' = (if ex then snd (WaitFor_in pending put_pending server_step x (if st = IoOk then bs else []) ?srv) else ?srv)"
    by (auto simp: SendRequestToHost_def Next_def Let_def put_pending_def x_def p_def
        split: if_splits prod.splits)
  with WaitFor_server [OF inv, of x] inv dom show ?thesis by (cases ex) (simp, blast, simp)
qed

lemma fst_fold_route: "fst (fold route msgs x) = fst x @ filter (\<lambda>m. \<not> is_dma_rsp m) msgs"
  by (induction msgs arbitrary: x) (auto simp: route_def split: prod.split)

lemma fold_route_untouched:
  assumes "\<forall>m\<in>set msgs. is_dma_rsp m \<longrightarrow> txn_id (header m) \<noteq> t"
  shows "snd (fold route msgs x) t = snd x t"
  using assms by (induction msgs arbitrary: x) (auto simp: route_def split: prod.split)

lemma dom_fold_route: "dom (snd (fold route msgs x)) = dom (snd x)"
  by (induction msgs arbitrary: x) (simp_all add: dom_route)

lemma fold_route_completes:
  assumes "snd x t \<noteq> None" "is_dma_rsp m" "txn_id (header m) = t"
    and "\<forall>m\<in>set after. is_dma_rsp m \<longrightarrow> txn_id (header m) \<noteq> t"
  shows "snd (fold route (before @ m # after) x) t = Some (Some m)"
proof -
  obtain q p where qp: "fold route before x = (q, p)" by (cases "fold route before x")
  have "p t \<noteq> None" using dom_fold_route [of before x] assms(1) qp by (metis domIff snd_conv)
  with assms qp show ?thesis by (simp add: fold_route_untouched) (simp add: route_def)
qed

lemma fold_OpIo_halted:
  "\<not> (running srv \<and> \<not> stop_requested srv) \<Longrightarrow> fold server_step (replicate n OpIo) srv = srv"
  by (induction n) auto

lemma fold_OpIo: "IoThreadMain n srv = Some srv' \<Longrightarrow> fold server_step (replicate n OpIo) srv = srv'"
proof (induction n arbitrary: srv)
  case (Suc n)
  show ?case
  proof (cases "running srv \<and> \<not> stop_requested srv")
    case True
    with Suc show ?thesis by (auto split: option.splits)
  next
    case False
    with Suc.prems fold_OpIo_halted [OF False, of "Suc n"] show ?thesis by (metis IoThreadMain.simps(2) option.inject)
  qed
qed simp

lemma SendRequestToHost_delivers:
  fixes srv :: MiniIcsServer
  defines "t \<equiv> next_id (txn_gen srv)"
  assumes up: "running srv" "\<not> stop_requested srv" "has_client srv"
    and msgs: "msgs = before @ m # after" "\<forall>m\<in>set msgs. valid_message m \<and> Type (header m) \<noteq> kShutdown"
    and rsp: "is_dma_rsp m" "txn_id (header m) = t"
    and last: "\<forall>m\<in>set after. is_dma_rsp m \<longrightarrow> txn_id (header m) \<noteq> t"
    and rx: "rx (client_socket srv) = concat (map wire msgs) @ rest"
    and coop: "cooperative (stream_cost msgs + n) (64 + length pl + k) (client_socket srv)"
  shows "\<exists>srv'. SendRequestToHost ty ad be pl xl ts True [replicate (length msgs) OpIo] srv
       = Some (Some t, Some m, srv') \<and>
     tx (client_socket srv') = tx (client_socket srv) @
       SerializeMessage (MakeHeader ty t ad be kSuccess ts (of_nat (length pl)) kFlagNone xl) pl \<and>
     queue (inbound_queue srv') = queue (inbound_queue srv) @ filter (\<lambda>m. \<not> is_dma_rsp m) msgs \<and>
     running srv' \<and> \<not> stop_requested srv' \<and> has_client srv' \<and> next_id (txn_gen srv') = t + 1 \<and>
     rx (client_socket srv') = rest \<and> cooperative n k (client_socket srv')"
proof -
  let ?req = "SerializeMessage (MakeHeader ty t ad be kSuccess ts (of_nat (length pl)) kFlagNone xl) pl"
  from SendAll_cooperative [OF coop, of ?req] obtain s where
    send: "SendAll ?req (client_socket srv) = Some (IoOk, s)" and
    s: "cooperative (stream_cost msgs + n) k s" "tx s = tx (client_socket srv) @ ?req" "rx s = rx (client_socket srv)"
    by (auto simp: SerializeMessage_def)
  let ?srv = "srv\<lparr>txn_gen := (txn_gen srv)\<lparr>next_id := t + 1\<rparr>, pending := RegisterPending t (pending srv), client_socket := s\<rparr>"
  from IoThreadMain_stream [of ?srv msgs rest n k] up msgs(2) rx s obtain srv1 where
    run: "IoThreadMain (length msgs) ?srv = Some srv1" "abs_server srv1 = fold route msgs (abs_server ?srv)"
      "tx (client_socket srv1) = tx s" "has_client srv1" "running srv1" "\<not> stop_requested srv1"
      "next_id (txn_gen srv1) = t + 1" "rx (client_socket srv1) = rest" "cooperative n k (client_socket srv1)"
    by auto
  have reg: "pending ?srv t = Some None" by (simp add: RegisterPending_def)
  have arrived: "pending srv1 t = Some (Some m)"
  proof -
    from reg have "snd (abs_server ?srv) t \<noteq> None" by (simp add: abs_server_def)
    from fold_route_completes [OF this rsp last] show ?thesis
      by (simp add: abs_server_pending [of srv1] run(2) msgs(1) del: fold_append)
  qed
  have "WaitFor_in pending put_pending server_step t [replicate (length msgs) OpIo] ?srv
      = (Some m, put_pending ((pending srv1)(t := None)) srv1)"
    using reg arrived fold_OpIo [OF run(1)] by (simp add: WaitFor_in_def)
  with up send have "SendRequestToHost ty ad be pl xl ts True [replicate (length msgs) OpIo] srv
      = Some (Some t, Some m, put_pending ((pending srv1)(t := None)) srv1)"
    by (simp add: SendRequestToHost_def Next_def Let_def put_pending_def t_def)
  moreover have "queue (inbound_queue srv1) = queue (inbound_queue srv) @ filter (\<lambda>m. \<not> is_dma_rsp m) msgs"
    using arg_cong [OF run(2), of fst] by (simp add: fst_fold_route) (simp add: abs_server_def)
  ultimately show ?thesis using run(3-) s(2) by (simp add: put_pending_def)
qed

lemma SendResponse_cooperative:
  assumes "has_client srv" "cooperative n (64 + length pl + k) (client_socket srv)"
  shows "\<exists>s. SendResponse h pl srv = Some (True, srv\<lparr>client_socket := s\<rparr>) \<and> cooperative n k s \<and>
     tx s = tx (client_socket srv) @ SerializeMessage h pl \<and> rx s = rx (client_socket srv) \<and> fd s = fd (client_socket srv)"
  using SendAll_cooperative [OF assms(2), of "SerializeMessage h pl"] assms(1)
  by (auto simp: SendResponse_def SerializeMessage_def)

lemma PollInbound_ready:
  assumes "queue (inbound_queue srv) = x # xs"
  shows "PollInbound bs srv = (Some x, put_queue ((inbound_queue srv)\<lparr>queue := xs\<rparr>) srv)"
  using assms srv_queue.Pop_in_ready [of srv server_step bs] by (simp add: PollInbound_def TryPop_def)

lemma PollInbound_quiet:
  assumes "queue (inbound_queue srv) = []" "concat bs = []"
  shows "PollInbound bs srv = (None, srv)"
proof -
  from srv_queue.Pop_in_wakes [of bs server_step srv] obtain bs1 bs2 where
    "bs = bs1 @ bs2" "PollInbound bs srv = (let s1 = fold server_step (concat bs1) srv
      in (fst (TryPop (inbound_queue s1)), put_queue (snd (TryPop (inbound_queue s1))) s1))"
    by (auto simp: PollInbound_def Let_def)
  moreover from this(1) assms(2) have "concat bs1 = []" by simp
  ultimately show ?thesis using assms(1) by (simp add: TryPop_def put_queue_def)
qed

section \<open>Reachable states\<close>

text \<open>
  What the simulator thread and the I/O thread do to a server between two calls of the simulator, as
  a step relation. A call that is still blocked is not a step. The relation covers one life of the
  server: \<open>Start\<close> after a \<open>Stop\<close> is looked at separately.
\<close>

inductive server_move :: "MiniIcsServer \<Rightarrow> MiniIcsServer \<Rightarrow> bool" where
  Move_start: "\<not> stop_requested srv \<Longrightarrow> Start d bind_ok listen_ok srv w = (ok, srv', w') \<Longrightarrow> server_move srv srv'"
| Move_stop: "Stop busy srv w = Some (srv', w') \<Longrightarrow> server_move srv srv'"
| Move_io: "server_move srv (server_step OpIo srv)"
| Move_poll: "PollInbound bs srv = (r, srv') \<Longrightarrow> server_move srv srv'"
| Move_response: "SendResponse h pl srv = Some (ok, srv') \<Longrightarrow> server_move srv srv'"
| Move_request: "SendRequestToHost ty ad be pl xl ts ex bs srv = Some (t, r, srv') \<Longrightarrow> server_move srv srv'"

declare server_step.simps [simp del]
inductive_cases server_moveE: "server_move srv srv'"
declare server_step.simps [simp]

definition kernel_accepts :: "UnixListener \<Rightarrow> bool" where
  "kernel_accepts l \<longleftrightarrow> (\<forall>s. AcceptOk s \<in> set (accepts l) \<longrightarrow> IsValid s)"

definition server_reachable :: "MiniIcsServer \<Rightarrow> bool" where
  "server_reachable srv \<longleftrightarrow>
     (\<exists>path a b l. kernel_accepts l \<and> server_move\<^sup>*\<^sup>* (new_MiniIcsServer path a b l) srv)"

lemma server_inv_listener: "server_inv srv \<Longrightarrow> accepts l = accepts (listener srv) \<Longrightarrow> server_inv (srv\<lparr>listener := l\<rparr>)"
  by (simp add: server_inv_def)

lemma Listen_accepts: "Listen d b k p l w = (ok, l', w') \<Longrightarrow> accepts l' = accepts l"
  by (auto simp: Listen_def Let_def split: if_splits)

lemma Listener_Close_accepts: "accepts (fst (Listener_Close l w)) = accepts l"
  by (simp add: Listener_Close_def Let_def)

lemma Start_inv:
  "server_inv srv \<Longrightarrow> \<not> stop_requested srv \<Longrightarrow> Start d b k srv w = (ok, srv', w')
     \<Longrightarrow> server_inv srv' \<and> dom (pending srv') \<subseteq> dom (pending srv)"
  by (auto simp: Start_def server_inv_def dest!: Listen_accepts split: prod.splits if_splits)

lemma Stop_inv:
  assumes "server_inv srv" "Stop busy srv w = Some (srv', w')"
  shows "server_inv srv' \<and> dom (pending srv') \<subseteq> dom (pending srv)"
proof (cases "running srv")
  case False
  with assms show ?thesis by (auto simp: Stop_def server_inv_def)
next
  case True
  let ?sig = "Stop_signal srv"
  have sig: "server_inv ?sig" "pending ?sig = Map.empty" "stop_requested ?sig"
    using server_step_inv [OF assms(1), of OpStop] True by (simp_all add: Stop_signal_def CancelAll_def)
  from True assms(2) obtain srv1 where s1: "(if busy then IoThreadBody ?sig else Some ?sig) = Some srv1"
    and srv': "srv' = close_client (srv1\<lparr>io_thread := False, listener := fst (Listener_Close (listener srv1) w)\<rparr>)"
    by (auto simp: Stop_def split: option.splits prod.splits)
  have "server_inv srv1 \<and> stop_requested srv1 \<and> pending srv1 = Map.empty"
    using s1 sig IoThreadBody_inv [OF sig(1), of srv1] IoThreadBody_dom [of ?sig srv1]
    by (auto split: if_splits)
  then show ?thesis by (auto simp: srv' close_client_def server_inv_def Listener_Close_accepts)
qed

lemma PollInbound_inv:
  assumes "server_inv srv" "PollInbound bs srv = (r, srv')"
  shows "server_inv srv' \<and> dom (pending srv') \<subseteq> dom (pending srv)"
proof -
  from srv_queue.Pop_in_wakes [of bs server_step srv] assms(2) obtain bs1 where
    "srv' = put_queue (snd (TryPop (inbound_queue (fold server_step (concat bs1) srv)))) (fold server_step (concat bs1) srv)"
    by (auto simp: PollInbound_def Let_def)
  with fold_server_step_inv [OF assms(1), of "concat bs1"] fold_server_step_dom [of "concat bs1" srv]
  show ?thesis by (simp add: put_queue_def server_inv_def)
qed

lemma SendResponse_inv:
  assumes "server_inv srv" "SendResponse h pl srv = Some (ok, srv')"
  shows "server_inv srv' \<and> dom (pending srv') \<subseteq> dom (pending srv)"
  using assms
  by (auto simp: SendResponse_def server_inv_def IsValid_def split: if_splits option.splits dest!: SendAll_result)

lemma server_move_inv:
  assumes "server_move srv srv'" "server_inv srv" "pending srv = Map.empty"
  shows "server_inv srv' \<and> pending srv' = Map.empty"
proof -
  have io: "server_inv (server_step OpIo srv) \<and> dom (pending (server_step OpIo srv)) \<subseteq> dom (pending srv)"
    using server_step_inv [OF assms(2)] server_step_dom by blast
  from assms(1) have "server_inv srv' \<and> dom (pending srv') \<subseteq> dom (pending srv)"
  proof (rule server_moveE, goal_cases)
    case 1 then show ?case by (rule Start_inv [OF assms(2)])
  next
    case 2 then show ?case by (rule Stop_inv [OF assms(2)])
  next
    case 3 with io show ?case by (simp del: server_step.simps)
  next
    case 4 then show ?case by (rule PollInbound_inv [OF assms(2)])
  next
    case 5 then show ?case by (rule SendResponse_inv [OF assms(2)])
  next
    case 6 then show ?case by (rule SendRequestToHost_inv [OF assms(2)])
  qed
  with assms(3) show ?thesis by simp
qed

lemma server_reachable_inv:
  assumes "server_reachable srv"
  shows "server_inv srv \<and> pending srv = Map.empty"
proof -
  from assms obtain path a b l where l: "kernel_accepts l"
    and "server_move\<^sup>*\<^sup>* (new_MiniIcsServer path a b l) srv"
    by (auto simp: server_reachable_def)
  from this(2) show ?thesis
  proof (induction rule: rtranclp_induct)
    case base
    from l show ?case
      by (simp add: new_MiniIcsServer_def server_inv_def kernel_accepts_def new_PendingRequestTable_def)
  next
    case (step srv1 srv2)
    with server_move_inv show ?case by blast
  qed
qed

section \<open>Stopping and restarting\<close>

lemma Stop_signal_unblocks:
  assumes "running srv"
  shows "shutdown_flag (inbound_queue (Stop_signal srv))" "pending (Stop_signal srv) t = None"
  using assms by (simp_all add: Stop_signal_def Shutdown_def CancelAll_def)

lemma IoThread_receive_silent:
  assumes "\<forall>p\<in>set (polls (client_socket srv)). p = PollTimedOut" "IoThread_receive srv = Some srv'"
  shows "\<exists>ps. srv' = srv\<lparr>client_socket := (client_socket srv)\<lparr>polls := ps\<rparr>\<rparr> \<and> set ps \<subseteq> set (polls (client_socket srv))"
  using assms by (cases "polls (client_socket srv)") (auto simp: IoThread_receive_def WaitReadable_def)

lemma IoThreadMain_silent:
  assumes "has_client srv" "\<forall>p\<in>set (polls (client_socket srv)). p = PollTimedOut" "IoThreadMain n srv = Some srv'"
  shows "has_client srv' \<and> fd (client_socket srv') = fd (client_socket srv) \<and> listener srv' = listener srv \<and>
    abs_server srv' = abs_server srv"
  using assms
proof (induction n arbitrary: srv)
  case (Suc n)
  show ?case
  proof (cases "running srv \<and> \<not> stop_requested srv")
    case False
    with Suc.prems show ?thesis by simp
  next
    case True
    with Suc.prems obtain srv1 where r: "IoThread_receive srv = Some srv1" and m: "IoThreadMain n srv1 = Some srv'"
      by (auto simp: IoThreadBody_def split: option.splits)
    from IoThread_receive_silent [OF Suc.prems(2) r] obtain ps where
      srv1: "srv1 = srv\<lparr>client_socket := (client_socket srv)\<lparr>polls := ps\<rparr>\<rparr>" "set ps \<subseteq> set (polls (client_socket srv))"
      by blast
    have "has_client srv1" "\<forall>p\<in>set (polls (client_socket srv1)). p = PollTimedOut"
      using Suc.prems(1,2) srv1 by auto
    from Suc.IH [OF this m] srv1(1) show ?thesis by simp
  qed
qed simp

section \<open>Properties of the server\<close>

text \<open>A connected server whose client has sent the given bytes, for the examples.\<close>

definition sample_server :: "nat \<Rightarrow> bytes \<Rightarrow> MiniIcsServer" where
  "sample_server n inb =
     (new_MiniIcsServer ''/tmp/mini_ics.sock'' 500 2000 \<lparr> lfd = 3, lpath = ''/tmp/mini_ics.sock'', lpolls = [], accepts = [] \<rparr>)
       \<lparr> client_socket := ideal_socket n 5 inb, running := True, has_client := True, io_thread := True \<rparr>"

definition sample_msg :: "MessageType \<Rightarrow> u64 \<Rightarrow> bytes \<Rightarrow> Message" where
  "sample_msg ty t pl = \<lparr> header = MakeHeader ty t 0x14 0 kSuccess 7 (of_nat (length pl)) kFlagNone 0, payload = pl \<rparr>"

lemma sample_server_simps [simp]:
  "running (sample_server n inb)" "\<not> stop_requested (sample_server n inb)" "has_client (sample_server n inb)"
  "client_socket (sample_server n inb) = ideal_socket n 5 inb" "txn_gen (sample_server n inb) = \<lparr>next_id = 1\<rparr>"
  "abs_server (sample_server n inb) = ([], Map.empty)" "inbound_queue (sample_server n inb) = new_BlockingQueue"
  "pending (sample_server n inb) = Map.empty"
  by (simp_all add: sample_server_def new_MiniIcsServer_def new_TransactionIdGenerator_def abs_server_def
      new_BlockingQueue_def new_PendingRequestTable_def)

lemma sample_msg_simps [simp]:
  "ty \<notin> range OtherMessageType \<Longrightarrow> Type (header (sample_msg ty t pl)) = ty"
  "txn_id (header (sample_msg ty t pl)) = t" "payload (sample_msg ty t pl) = pl"
  "Status (header (sample_msg ty t pl)) = kSuccess"
  by (simp_all add: sample_msg_def image_iff)

lemma sample_msg_valid [simp]: "length pl \<le> 16 \<Longrightarrow> valid_message (sample_msg ty t pl)"
  using payload_fits [of pl] by (simp add: sample_msg_def valid_message_def kMaxPayloadSize_def)



text \<open>
  C9: a stream of messages is delivered in order and completely. If a connected client sends valid
  messages other than SHUTDOWN and the kernel is cooperative, as many iterations of the I/O loop leave
  the connection up, the queue and the pending table as if the messages had been routed one after the
  other, and the bytes behind the messages unread.
\<close>

theorem stream_delivered:
  assumes "running srv" "\<not> stop_requested srv" "has_client srv"
    and "\<forall>m\<in>set msgs. valid_message m \<and> Type (header m) \<noteq> kShutdown"
    and "rx (client_socket srv) = concat (map wire msgs) @ rest"
    and "cooperative (stream_cost msgs) 0 (client_socket srv)"
  shows "\<exists>srv'. IoThreadMain (length msgs) srv = Some srv' \<and>
     abs_server srv' = fold route msgs (abs_server srv) \<and> has_client srv' \<and>
     queue (inbound_queue srv') = queue (inbound_queue srv) @ filter (\<lambda>m. \<not> is_dma_rsp m) msgs \<and>
     rx (client_socket srv') = rest"
proof -
  from IoThreadMain_stream [OF assms(1-5), of 0 0] assms(6) obtain srv' where
    s: "IoThreadMain (length msgs) srv = Some srv'" "abs_server srv' = fold route msgs (abs_server srv)"
      "has_client srv'" "rx (client_socket srv') = rest"
    by auto
  from arg_cong [OF s(2), of fst]
  have "queue (inbound_queue srv') = queue (inbound_queue srv) @ filter (\<lambda>m. \<not> is_dma_rsp m) msgs"
    by (simp add: fst_fold_route) (simp add: abs_server_def)
  with s show ?thesis by blast
qed

theorem stream_delivered_witness:
  "\<exists>srv'. IoThreadMain 2 (sample_server 200 (wire (sample_msg kResetReq 4 []) @ wire (sample_msg kMmioWriteReq 5 [1, 0, 0, 0]) @ [9])) = Some srv' \<and>
     queue (inbound_queue srv') = [sample_msg kResetReq 4 [], sample_msg kMmioWriteReq 5 [1, 0, 0, 0]] \<and>
     rx (client_socket srv') = [9]"
  using stream_delivered [of "sample_server 200 (wire (sample_msg kResetReq 4 []) @ wire (sample_msg kMmioWriteReq 5 [1, 0, 0, 0]) @ [9])"
      "[sample_msg kResetReq 4 [], sample_msg kMmioWriteReq 5 [1, 0, 0, 0]]" "[9]"]
  by (auto simp: ideal_socket_cooperative image_iff stream_cost_def is_dma_rsp_def new_BlockingQueue_def numeral_2_eq_2)

text \<open>
  C20: nobody is a client without a handshake. When an iteration of the accept loop ends with a client,
  the connection came from \<open>accept\<close>, the first bytes it sent are a valid HELLO, and what was sent to it
  is exactly the HELLO_ACK with the same transaction id; in every other case no new connection stays
  open. Nothing is dispatched during the handshake.
\<close>

theorem handshake_required:
  assumes "IoThread_accept srv = Some srv'" "\<not> has_client srv"
  shows "abs_server srv' = abs_server srv \<and>
    (if has_client srv'
     then \<exists>conn hello. AcceptOk conn \<in> set (accepts (listener srv)) \<and> fd (client_socket srv') = fd conn \<and>
       valid_message hello \<and> Type (header hello) = kHello \<and>
       rx conn = wire hello @ rx (client_socket srv') \<and>
       tx (client_socket srv') = tx conn @ wire (hello_ack hello)
     else client_socket srv' = client_socket srv \<or> \<not> IsValid (client_socket srv'))"
  using IoThread_accept_result [OF assms] by blast

definition idle_server :: "UnixSocket \<Rightarrow> MiniIcsServer" where
  "idle_server conn = (sample_server 0 [])\<lparr> client_socket := no_socket, has_client := False,
     listener := \<lparr> lfd = 3, lpath = ''/tmp/mini_ics.sock'', lpolls = [PollReady POLLIN], accepts = [AcceptOk conn] \<rparr> \<rparr>"

lemma idle_server_simps [simp]:
  "\<not> has_client (idle_server conn)" "client_socket (idle_server conn) = no_socket"
  "accepts (listener (idle_server conn)) = [AcceptOk conn]" "lpolls (listener (idle_server conn)) = [PollReady POLLIN]"
  "abs_server (idle_server conn) = ([], Map.empty)"
  by (simp_all add: idle_server_def)

theorem handshake_required_witness:
  "\<exists>srv'. IoThread_accept (idle_server (ideal_socket 130 6 (wire (sample_msg kHello 1 [])))) = Some srv' \<and>
     has_client srv' \<and> abs_server srv' = ([], Map.empty) \<and>
     (\<exists>conn hello. AcceptOk conn = AcceptOk (ideal_socket 130 6 (wire (sample_msg kHello 1 []))) \<and> fd (client_socket srv') = fd conn \<and>
       valid_message hello \<and> Type (header hello) = kHello \<and>
       rx conn = wire hello @ rx (client_socket srv') \<and> tx (client_socket srv') = tx conn @ wire (hello_ack hello))"
proof -
  let ?conn = "ideal_socket 130 6 (wire (sample_msg kHello 1 []))"
  obtain srv' where r: "IoThread_accept (idle_server ?conn) = Some srv'" "has_client srv'"
    using IoThread_accept_completes [of "idle_server ?conn" ?conn "[]" "[]" "sample_msg kHello 1 []" "[]" 0 0]
    by (auto simp: ideal_socket_cooperative image_iff)
  from handshake_required [OF r(1)] r show ?thesis by (intro exI [of _ srv']) auto
qed



text \<open>
  C18: a DMA request is answered by its own response. Under any interference of the I/O thread and of
  \<open>Stop\<close>, the message that \<open>SendRequestToHost\<close> returns is a DMA response that carries the
  transaction id the request was sent with, and the request's entry is gone from the table.
\<close>

theorem request_correlated:
  assumes "server_inv srv" "SendRequestToHost ty ad be pl xl ts True bs srv = Some (Some t, Some m, srv')"
  shows "t = next_id (txn_gen srv) \<and> txn_id (header m) = t \<and> is_dma_rsp m \<and> pending srv' t = None"
  using SendRequestToHost_correlates [OF assms] .

text \<open>
  C17: a DMA request completes. If the client's stream holds, after any other messages, a DMA response
  with the id that the request will be given, and the kernel is cooperative, then \<open>SendRequestToHost\<close>
  returns that response (the last one with the id that arrived before the wake-up); exactly the request
  was sent, and the messages that are not DMA responses were queued for the simulator in order.
\<close>

theorem request_completes:
  assumes "running srv" "\<not> stop_requested srv" "has_client srv"
    and "msgs = before @ m # after" "\<forall>m\<in>set msgs. valid_message m \<and> Type (header m) \<noteq> kShutdown"
    and "is_dma_rsp m" "txn_id (header m) = next_id (txn_gen srv)"
    and "\<forall>m\<in>set after. is_dma_rsp m \<longrightarrow> txn_id (header m) \<noteq> next_id (txn_gen srv)"
    and "rx (client_socket srv) = concat (map wire msgs) @ rest"
    and "cooperative (stream_cost msgs + n) (64 + length pl + k) (client_socket srv)"
  shows "\<exists>srv'. SendRequestToHost ty ad be pl xl ts True [replicate (length msgs) OpIo] srv
       = Some (Some (next_id (txn_gen srv)), Some m, srv') \<and>
     tx (client_socket srv') = tx (client_socket srv) @
       SerializeMessage (MakeHeader ty (next_id (txn_gen srv)) ad be kSuccess ts (of_nat (length pl)) kFlagNone xl) pl \<and>
     queue (inbound_queue srv') = queue (inbound_queue srv) @ filter (\<lambda>m. \<not> is_dma_rsp m) msgs"
  using SendRequestToHost_delivers [OF assms] by blast

lemma sample_request:
  "\<exists>srv'. SendRequestToHost kDmaReadReq 0x100000 0 [] 64 160 True [[OpIo, OpIo]]
      (sample_server 200 (wire (sample_msg kResetReq 9 []) @ wire (sample_msg kDmaReadRsp 1 [7])))
     = Some (Some 1, Some (sample_msg kDmaReadRsp 1 [7]), srv') \<and>
     queue (inbound_queue srv') = [sample_msg kResetReq 9 []]"
  using SendRequestToHost_delivers [of "sample_server 200 (wire (sample_msg kResetReq 9 []) @ wire (sample_msg kDmaReadRsp 1 [7]))"
      "[sample_msg kResetReq 9 [], sample_msg kDmaReadRsp 1 [7]]" "[sample_msg kResetReq 9 []]" "sample_msg kDmaReadRsp 1 [7]" "[]" "[]" 0 "[]" 0
      kDmaReadReq "0x100000" 0 64 160]
  by (auto simp: ideal_socket_cooperative image_iff stream_cost_def is_dma_rsp_def new_BlockingQueue_def)

lemma sample_server_inv: "server_inv (sample_server n inb)"
  by (simp add: server_inv_def sample_server_def new_MiniIcsServer_def new_PendingRequestTable_def IsValid_def)

theorem request_correlated_witness:
  "\<exists>t m srv'. SendRequestToHost kDmaReadReq 0x100000 0 [] 64 160 True [[OpIo, OpIo]]
      (sample_server 200 (wire (sample_msg kResetReq 9 []) @ wire (sample_msg kDmaReadRsp 1 [7])))
     = Some (Some t, Some m, srv') \<and> t = 1 \<and> txn_id (header m) = t \<and> is_dma_rsp m \<and> pending srv' t = None"
proof -
  obtain srv' where r: "SendRequestToHost kDmaReadReq 0x100000 0 [] 64 160 True [[OpIo, OpIo]]
      (sample_server 200 (wire (sample_msg kResetReq 9 []) @ wire (sample_msg kDmaReadRsp 1 [7])))
     = Some (Some 1, Some (sample_msg kDmaReadRsp 1 [7]), srv')"
    using sample_request by blast
  from request_correlated [OF sample_server_inv r] r show ?thesis by blast
qed

theorem request_completes_witness:
  "\<exists>srv'. SendRequestToHost kDmaReadReq 0x100000 0 [] 64 160 True [[OpIo, OpIo]]
      (sample_server 200 (wire (sample_msg kResetReq 9 []) @ wire (sample_msg kDmaReadRsp 1 [7])))
     = Some (Some 1, Some (sample_msg kDmaReadRsp 1 [7]), srv')"
  using request_completes [of "sample_server 200 (wire (sample_msg kResetReq 9 []) @ wire (sample_msg kDmaReadRsp 1 [7]))"
      "[sample_msg kResetReq 9 [], sample_msg kDmaReadRsp 1 [7]]" "[sample_msg kResetReq 9 []]" "sample_msg kDmaReadRsp 1 [7]" "[]" "[]" 0 "[]" 0
      kDmaReadReq "0x100000" 0 64 160]
  by (auto simp: ideal_socket_cooperative image_iff stream_cost_def is_dma_rsp_def)



text \<open>
  A server that is stopped while a client is connected cannot be used again. \<open>Stop\<close> closes the
  client's socket but leaves \<open>has_client_\<close> set, so after a second \<open>Start\<close> the I/O thread never calls
  \<open>accept\<close>: it polls the closed descriptor, and polling a negative descriptor only ever times out.
\<close>

theorem restart_never_accepts:
  assumes "running srv" "has_client srv" "Stop False srv w = Some (srv1, w1)"
    and "Start d bind_ok listen_ok srv1 w1 = (True, srv2, w2)"
    and "\<forall>p\<in>set (polls (client_socket srv2)). p = PollTimedOut" "IoThreadMain n srv2 = Some srv3"
  shows "running srv2 \<and> has_client srv3 \<and> \<not> IsValid (client_socket srv3) \<and> listener srv3 = listener srv2"
proof -
  have "has_client srv1" "\<not> IsValid (client_socket srv1)"
    using assms(1-3) by (auto simp: Stop_def Stop_signal_def close_client_def split: prod.splits)
  with assms(4) have "running srv2" "has_client srv2" "\<not> IsValid (client_socket srv2)"
    by (auto simp: Start_def split: prod.splits if_splits)
  with IoThreadMain_silent [OF _ assms(5,6)] show ?thesis by (auto simp: IsValid_def)
qed

theorem restart_never_accepts_witness:
  "\<exists>srv1 w1 srv2 w2 srv3.
     Stop False ((sample_server 0 [])\<lparr>client_socket := \<lparr>fd = 5, polls = [PollTimedOut], sends = [], recvs = [], rx = [], tx = []\<rparr>\<rparr>)
        \<lparr>open_fds = {3, 5}, socket_files = {}\<rparr> = Some (srv1, w1) \<and>
     Start 3 True True srv1 w1 = (True, srv2, w2) \<and> IoThreadMain 1 srv2 = Some srv3 \<and>
     has_client srv3 \<and> \<not> IsValid (client_socket srv3)"
proof -
  let ?srv = "(sample_server 0 [])\<lparr>client_socket := \<lparr>fd = 5, polls = [PollTimedOut], sends = [], recvs = [], rx = [], tx = []\<rparr>\<rparr>"
  let ?w = "\<lparr>open_fds = {3, 5}, socket_files = {}\<rparr>"
  obtain srv1 w1 where s1: "Stop False ?srv ?w = Some (srv1, w1)" and
    p1: "polls (client_socket srv1) = [PollTimedOut]" "socket_path srv1 = ''/tmp/mini_ics.sock''" "has_client srv1"
    by (auto simp: Stop_def Stop_signal_def close_client_def Close_def sample_server_def new_MiniIcsServer_def
        Listener_Close_def Let_def)
  obtain srv2 w2 where s2: "Start 3 True True srv1 w1 = (True, srv2, w2)" and
    p2: "polls (client_socket srv2) = [PollTimedOut]" "has_client srv2" "running srv2" "\<not> stop_requested srv2"
    using p1 by (auto simp: Start_def Listen_def Let_def sun_path_size_def)
  obtain srv3 where s3: "IoThreadMain 1 srv2 = Some srv3"
    using p2 by (auto simp: One_nat_def IoThreadBody_def IoThread_receive_def WaitReadable_def)
  from restart_never_accepts [OF _ _ s1 s2 _ s3] p2 s1 s2 s3 show ?thesis by simp
qed

end
