(* ===== verification/Endpoint.thy ===== *)
theory Endpoint
  imports Server Logger
begin

text \<open>
  The software endpoint of \<open>mini_ics_server --demo\<close> (class \<open>SoftwareEndpointModel\<close> in
  \<open>mini-ics/src/server.cpp\<close>) and the program around it: an NVMe-like register file behind MMIO
  requests, the DMA-read / DMA-write / MSI-X sequence that a doorbell starts, the polling loop, the
  command line and the loop of the stand-alone server.

  The handlers return \<open>None\<close> while they are blocked in a send. What the I/O thread and \<open>Stop\<close> do
  during the blocking calls of one poll and the handler behind it is an \<open>EndpointEnv\<close>.
\<close>

unbundle bit_operations_syntax

section \<open>State and registers\<close>

record SoftwareEndpointModel =
  server :: MiniIcsServer
  sim_time_ns :: u64
  cc :: u32
  csts :: u32
  asq :: u64
  acq :: u64
  aqa :: u32
  doorbell_rung :: bool

definition new_SoftwareEndpointModel :: "MiniIcsServer \<Rightarrow> SoftwareEndpointModel" where
  "new_SoftwareEndpointModel srv = \<lparr> server = srv, sim_time_ns = 100, cc = 0, csts = 0, asq = 0, acq = 0,
     aqa = 0, doorbell_rung = False \<rparr>"

definition kCapabilities :: u64 where "kCapabilities = 0x0000000000000001"
definition kAqaReg :: u64 where "kAqaReg = 0x0024"
definition kCcReg :: u64 where "kCcReg = 0x0014"
definition kCstsReg :: u64 where "kCstsReg = 0x001C"
definition kCapReg :: u64 where "kCapReg = 0x0000"
definition kSq0Doorbell :: u64 where "kSq0Doorbell = 0x1000"
definition kMmioSpaceSize :: u64 where "kMmioSpaceSize = 64 * 1024"
definition kAsqRegLow :: u64 where "kAsqRegLow = 0x0028"
definition kAcqRegLow :: u64 where "kAcqRegLow = 0x0030"

lemmas endpoint_regs = kAqaReg_def kCcReg_def kCstsReg_def kCapReg_def kSq0Doorbell_def kMmioSpaceSize_def
  kAsqRegLow_def kAcqRegLow_def

record EndpointEnv =
  poll_wait :: "server_op list list"
  read_wait :: "server_op list list"
  write_wait :: "server_op list list"

definition DecodeU32 :: "bytes \<Rightarrow> u32" where
  "DecodeU32 b = ucast (b ! 0) OR push_bit 8 (ucast (b ! 1)) OR push_bit 16 (ucast (b ! 2)) OR push_bit 24 (ucast (b ! 3))"

definition DecodeU64 :: "bytes \<Rightarrow> u64" where
  "DecodeU64 b = fold (\<lambda>i v. v OR push_bit (8 * i) (ucast (b ! i))) [0..<8] 0"

definition EncodeU32 :: "u32 \<Rightarrow> bytes" where
  "EncodeU32 v = [ucast v, ucast (drop_bit 8 v), ucast (drop_bit 16 v), ucast (drop_bit 24 v)]"

definition AddrValid :: "u64 \<Rightarrow> u32 \<Rightarrow> bool" where
  "AddrValid addr len \<longleftrightarrow> addr + ucast len \<le> kMmioSpaceSize"

section \<open>Handlers\<close>

definition endpoint_respond :: "Header \<Rightarrow> bytes \<Rightarrow> SoftwareEndpointModel \<Rightarrow> SoftwareEndpointModel option" where
  "endpoint_respond rsp pl ep = map_option (\<lambda>(_, srv). ep\<lparr> server := srv \<rparr>) (SendResponse rsp pl (server ep))"

definition HandleReset :: "Message \<Rightarrow> SoftwareEndpointModel \<Rightarrow> SoftwareEndpointModel option" where
  "HandleReset msg ep =
     (let ep = ep\<lparr> cc := 0, csts := 0, asq := 0, acq := 0, aqa := 0 \<rparr>;
          rsp = MakeHeader kResetRsp (txn_id (header msg)) 0 0 kSuccess (sim_time_ns ep) 0 kFlagIsResponse 0
      in endpoint_respond rsp [] ep)"

text \<open>The register part of a write: the status of the response and the new registers.\<close>

definition WriteRegisters :: "u64 \<Rightarrow> bytes \<Rightarrow> SoftwareEndpointModel \<Rightarrow> StatusCode \<times> SoftwareEndpointModel" where
  "WriteRegisters addr pl ep =
     (let len = of_nat (length pl) :: u32
      in if \<not> AddrValid addr len then (kErrorInvalidAddress, ep)
         else if addr = kCcReg \<and> len = 4 then
           let ep = ep\<lparr> cc := DecodeU32 pl \<rparr>
           in (kSuccess, if cc ep AND 0x1 \<noteq> 0 then ep\<lparr> csts := csts ep OR 0x1 \<rparr>
                         else ep\<lparr> csts := csts ep AND NOT 0x1 \<rparr>)
         else if addr = kAsqRegLow \<and> len = 8 then (kSuccess, ep\<lparr> asq := DecodeU64 pl \<rparr>)
         else if addr = kAcqRegLow \<and> len = 8 then (kSuccess, ep\<lparr> acq := DecodeU64 pl \<rparr>)
         else if addr = kAqaReg \<and> len = 4 then (kSuccess, ep\<lparr> aqa := DecodeU32 pl \<rparr>)
         else if addr = kSq0Doorbell \<and> len = 4 then (kSuccess, ep\<lparr> doorbell_rung := True \<rparr>)
         else if len \<noteq> 4 \<and> len \<noteq> 8 then (kErrorBadLength, ep)
         else (kErrorInvalidAddress, ep))"

definition endpoint_request ::
  "MessageType \<Rightarrow> u64 \<Rightarrow> bytes \<Rightarrow> u32 \<Rightarrow> bool \<Rightarrow> server_op list list \<Rightarrow> SoftwareEndpointModel
     \<Rightarrow> (Message option \<times> SoftwareEndpointModel) option" where
  "endpoint_request ty addr pl tlen expect bs ep =
     map_option (\<lambda>(_, rsp, srv). (rsp, ep\<lparr> server := srv \<rparr>))
       (SendRequestToHost ty addr 0 pl tlen (sim_time_ns ep) expect bs (server ep))"

definition succeeded :: "Message option \<Rightarrow> bool" where
  "succeeded rsp = (case rsp of None \<Rightarrow> False | Some m \<Rightarrow> Status (header m) = kSuccess)"

definition completion :: bytes where
  "completion = map (\<lambda>i. of_nat (0xC0 + i)) [0..<16]"

definition RunDmaSequence :: "EndpointEnv \<Rightarrow> SoftwareEndpointModel \<Rightarrow> SoftwareEndpointModel option" where
  "RunDmaSequence env ep =
     (let ep = ep\<lparr> sim_time_ns := sim_time_ns ep + 60 \<rparr>
      in case endpoint_request kDmaReadReq (asq ep) [] 64 True (read_wait env) ep of
           None \<Rightarrow> None
         | Some (read_rsp, ep) \<Rightarrow>
             if \<not> succeeded read_rsp then Some ep
             else
               let ep = ep\<lparr> sim_time_ns := sim_time_ns ep + 45 \<rparr>
               in case endpoint_request kDmaWriteReq (acq ep) completion (of_nat (length completion)) True
                         (write_wait env) ep of
                    None \<Rightarrow> None
                  | Some (write_rsp, ep) \<Rightarrow>
                      if \<not> succeeded write_rsp then Some ep
                      else
                        let ep = ep\<lparr> sim_time_ns := sim_time_ns ep + 30 \<rparr>
                        in map_option snd (endpoint_request kMsiX 0 [] 0 False [] ep))"

definition HandleMmioWrite :: "EndpointEnv \<Rightarrow> Message \<Rightarrow> SoftwareEndpointModel \<Rightarrow> SoftwareEndpointModel option" where
  "HandleMmioWrite env msg ep =
     (let addr = address (header msg);
          (st, ep) = WriteRegisters addr (payload msg) ep;
          rsp = MakeHeader kMmioWriteRsp (txn_id (header msg)) addr 0 st (sim_time_ns ep) 0 kFlagIsResponse 0
      in case endpoint_respond rsp [] ep of
           None \<Rightarrow> None
         | Some ep \<Rightarrow>
             if doorbell_rung ep then RunDmaSequence env (ep\<lparr> doorbell_rung := False \<rparr>) else Some ep)"

text \<open>The register part of a read: the status and the payload of the response.\<close>

definition ReadRegisters :: "u64 \<Rightarrow> u32 \<Rightarrow> u64 \<Rightarrow> SoftwareEndpointModel \<Rightarrow> StatusCode \<times> bytes" where
  "ReadRegisters addr tlen be ep =
     (let len = (if tlen = 0 then of_nat (popcount be) else tlen);
          bad = len \<noteq> 1 \<and> len \<noteq> 2 \<and> len \<noteq> 4 \<and> len \<noteq> 8;
          st = (if bad then kErrorBadLength else kSuccess);
          len = (if bad then 0 else len);
          (st, v) = (if \<not> AddrValid addr len then (kErrorInvalidAddress, 0 :: u32)
             else if addr = kCstsReg then (st, csts ep)
             else if addr = kCcReg then (st, cc ep)
             else if addr = kAqaReg then (st, aqa ep)
             else if addr = kCapReg then (st, ucast kCapabilities)
             else (kErrorInvalidAddress, 0));
          wide_value = ucast v :: u64
      in (st, if st = kSuccess then map (\<lambda>i. ucast (drop_bit (8 * i) wide_value)) [0..<unat len] else []))"

definition HandleMmioRead :: "Message \<Rightarrow> SoftwareEndpointModel \<Rightarrow> SoftwareEndpointModel option" where
  "HandleMmioRead msg ep =
     (let addr = address (header msg);
          (st, pl) = ReadRegisters addr (transfer_len (header msg)) (byte_enable (header msg)) ep;
          rsp = MakeHeader kMmioReadRsp (txn_id (header msg)) addr 0 st (sim_time_ns ep)
                  (of_nat (length pl)) kFlagIsResponse 0
      in endpoint_respond rsp pl ep)"

definition Handle :: "EndpointEnv \<Rightarrow> Message \<Rightarrow> SoftwareEndpointModel \<Rightarrow> SoftwareEndpointModel option" where
  "Handle env msg ep =
     (case Type (header msg) of
        kResetReq \<Rightarrow> HandleReset msg ep
      | kMmioWriteReq \<Rightarrow> HandleMmioWrite env msg ep
      | kMmioReadReq \<Rightarrow> HandleMmioRead msg ep
      | _ \<Rightarrow> Some ep)"

section \<open>The polling loop\<close>

text \<open>
  \<open>Run\<close> observed for as many polls as there are environments. The flag of the result says whether it
  has returned; \<open>None\<close> is a handler blocked in a send.
\<close>

fun Run_loop :: "bool \<Rightarrow> nat \<Rightarrow> EndpointEnv list \<Rightarrow> SoftwareEndpointModel \<Rightarrow> (bool \<times> SoftwareEndpointModel) option" where
  "Run_loop persistent idle_polls [] ep = Some (\<not> (persistent \<or> idle_polls < 200), ep)"
| "Run_loop persistent idle_polls (env # envs) ep =
     (if persistent \<or> idle_polls < 200 then
        case PollInbound (poll_wait env) (server ep) of
          (None, srv) \<Rightarrow> Run_loop persistent (idle_polls + 1) envs (ep\<lparr> server := srv \<rparr>)
        | (Some msg, srv) \<Rightarrow>
            let ep = ep\<lparr> server := srv, sim_time_ns := sim_time_ns ep + 15 \<rparr>
            in if Type (header msg) = kShutdown then Some (True, ep)
               else case Handle env msg ep of
                      None \<Rightarrow> None
                    | Some ep \<Rightarrow> Run_loop persistent 0 envs ep
      else Some (True, ep))"

definition Run :: "bool \<Rightarrow> EndpointEnv list \<Rightarrow> SoftwareEndpointModel \<Rightarrow> (bool \<times> SoftwareEndpointModel) option" where
  "Run persistent envs ep = Run_loop persistent 0 envs ep"

section \<open>The server program\<close>

record server_options =
  opt_socket_path :: string
  demo_mode :: bool
  persistent_demo :: bool
  log_level :: LogLevel

definition default_server_options :: server_options where
  "default_server_options = \<lparr> opt_socket_path = ''/tmp/mini_ics.sock'', demo_mode = False,
     persistent_demo = False, log_level = LogInfo \<rparr>"

fun parse_server_args :: "string list \<Rightarrow> server_options \<Rightarrow> server_options" where
  "parse_server_args [] opts = opts"
| "parse_server_args (arg # rest) opts =
     (if arg = ''--socket'' \<and> rest \<noteq> [] then parse_server_args (tl rest) (opts\<lparr> opt_socket_path := hd rest \<rparr>)
      else if arg = ''--demo'' then parse_server_args rest (opts\<lparr> demo_mode := True \<rparr>)
      else if arg = ''--persistent'' then parse_server_args rest (opts\<lparr> persistent_demo := True \<rparr>)
      else if arg = ''--log-level'' \<and> rest \<noteq> []
      then parse_server_args (tl rest) (opts\<lparr> log_level := LogLevelFromString (hd rest) \<rparr>)
      else parse_server_args rest opts)"

text \<open>
  The loop of the program without \<open>--demo\<close>: each entry is the value of the signal flag at the loop test
  and the interference during the poll.
\<close>

fun standalone_loop :: "(bool \<times> server_op list list) list \<Rightarrow> MiniIcsServer \<Rightarrow> bool \<times> MiniIcsServer" where
  "standalone_loop [] srv = (False, srv)"
| "standalone_loop ((g_stop, bs) # rest) srv =
     (if \<not> g_stop \<and> running srv then
        case PollInbound bs srv of
          (None, srv) \<Rightarrow> standalone_loop rest srv
        | (Some msg, srv) \<Rightarrow> if Type (header msg) = kShutdown then (True, srv) else standalone_loop rest srv
      else (True, srv))"

text \<open>
  The whole program: what the kernel does for \<open>Listen\<close>, how the loops are scheduled and how the I/O thread is
  interrupted by \<open>Stop\<close> are arguments; \<open>None\<close> means that the program has not returned yet.
\<close>

record server_schedule =
  listen_fd :: int
  bind_works :: bool
  listen_works :: bool
  kernel_listener :: UnixListener
  demo_envs :: "EndpointEnv list"
  standalone_polls :: "(bool \<times> server_op list list) list"
  io_busy :: bool

definition server_main :: "string list \<Rightarrow> server_schedule \<Rightarrow> os \<Rightarrow> (int \<times> MiniIcsServer \<times> os) option" where
  "server_main args sch w =
     (let opts = parse_server_args args default_server_options;
          (started, srv, w) = Start (listen_fd sch) (bind_works sch) (listen_works sch)
             (new_MiniIcsServer (opt_socket_path opts) 1000 5000 (kernel_listener sch)) w
      in if \<not> started then Some (1, srv, w)
         else
           case (if demo_mode opts
                 then map_option (\<lambda>(returned, ep). (returned, server ep)) (Run (persistent_demo opts) (demo_envs sch) (new_SoftwareEndpointModel srv))
                 else Some (standalone_loop (standalone_polls sch) srv)) of
             None \<Rightarrow> None
           | Some (returned, srv) \<Rightarrow>
               if \<not> returned then None
               else map_option (\<lambda>(srv, w). (0, srv, w)) (Stop (io_busy sch) srv w))"

section \<open>Decoding and the registers\<close>

lemma DecodeU32_le_value: "length b = 4 \<Longrightarrow> DecodeU32 b = le_value b"
  using GetU32_le_value [of 0 b] by (simp add: DecodeU32_def GetU32_def numeral_2_eq_2)

lemma DecodeU64_le_value: "length b = 8 \<Longrightarrow> DecodeU64 b = le_value b"
  using GetU64_le_value [of 0 b] by (simp add: DecodeU64_def GetU64_def)

lemma EncodeU32_le_bytes: "EncodeU32 v = le_bytes 4 v"
  by (simp add: EncodeU32_def le_bytes_def byte_of_def upt_conv_Cons)

lemma and_one_cases: "(w :: 'a::len word) AND 1 = (if odd w then 1 else 0)"
  by (simp add: and_one_eq odd_iff_mod_2_eq_one)

lemma and_not_one: "(w AND 1) AND NOT 1 = (0 :: 'a::len word)"
  by (simp add: and.assoc)

text \<open>
  The invariant of the endpoint: the ready bit follows the enable bit, a doorbell is never left
  pending between two messages, and the server is in one of its good states.
\<close>

definition endpoint_inv :: "SoftwareEndpointModel \<Rightarrow> bool" where
  "endpoint_inv ep \<longleftrightarrow> csts ep = cc ep AND 1 \<and> \<not> doorbell_rung ep \<and> server_inv (server ep) \<and> pending (server ep) = Map.empty"

definition same_regs :: "SoftwareEndpointModel \<Rightarrow> SoftwareEndpointModel \<Rightarrow> bool" where
  "same_regs ep ep' \<longleftrightarrow> cc ep' = cc ep \<and> csts ep' = csts ep \<and> asq ep' = asq ep \<and> acq ep' = acq ep \<and> aqa ep' = aqa ep"

lemma WriteRegisters_frame:
  "WriteRegisters addr pl ep = (st, ep') \<Longrightarrow> server ep' = server ep \<and> sim_time_ns ep' = sim_time_ns ep"
  by (auto simp: WriteRegisters_def Let_def split: if_splits)

lemma WriteRegisters_ready:
  assumes "WriteRegisters addr pl ep = (st, ep')" "csts ep = cc ep AND 1"
  shows "csts ep' = cc ep' AND 1"
  using assms
  by (auto simp: WriteRegisters_def Let_def and_one_cases and_not_one split: if_splits)

lemma endpoint_respond_inv:
  assumes "endpoint_respond rsp pl ep = Some ep'"
  shows "same_regs ep ep' \<and> sim_time_ns ep' = sim_time_ns ep \<and> doorbell_rung ep' = doorbell_rung ep \<and>
    (server_inv (server ep) \<and> pending (server ep) = Map.empty \<longrightarrow> server_inv (server ep') \<and> pending (server ep') = Map.empty)"
  using assms SendResponse_inv [of "server ep" rsp pl]
  by (fastforce simp: endpoint_respond_def same_regs_def)

lemma endpoint_request_inv:
  assumes "endpoint_request ty ad pl xl ex bs ep = Some (r, ep')"
  shows "same_regs ep ep' \<and> sim_time_ns ep' = sim_time_ns ep \<and> doorbell_rung ep' = doorbell_rung ep \<and>
    (server_inv (server ep) \<and> pending (server ep) = Map.empty \<longrightarrow> server_inv (server ep') \<and> pending (server ep') = Map.empty)"
  using assms SendRequestToHost_inv [of "server ep" ty ad 0 pl xl "sim_time_ns ep" ex bs]
  by (fastforce simp: endpoint_request_def same_regs_def)

lemma endpoint_inv_request:
  assumes "endpoint_request ty ad pl xl ex bs ep = Some (r, ep')" "endpoint_inv ep"
  shows "endpoint_inv ep'"
  using endpoint_request_inv [OF assms(1)] assms(2) by (simp add: endpoint_inv_def same_regs_def)

lemma endpoint_inv_time [simp]: "endpoint_inv (ep\<lparr>sim_time_ns := n\<rparr>) = endpoint_inv ep"
  by (simp add: endpoint_inv_def)

lemma RunDmaSequence_inv:
  assumes "RunDmaSequence env ep = Some ep'" "endpoint_inv ep"
  shows "endpoint_inv ep'"
  using assms
  by (auto simp: RunDmaSequence_def Let_def split: option.splits if_splits dest!: endpoint_inv_request)

lemma endpoint_inv_respond:
  assumes "endpoint_respond rsp pl ep = Some ep'" "csts ep = cc ep AND 1"
    and "server_inv (server ep)" "pending (server ep) = Map.empty"
  shows "endpoint_inv (ep'\<lparr>doorbell_rung := False\<rparr>)"
  using endpoint_respond_inv [OF assms(1)] assms(2-) by (simp add: endpoint_inv_def same_regs_def)

lemma endpoint_inv_doorbell: "\<not> doorbell_rung ep \<Longrightarrow> endpoint_inv (ep\<lparr>doorbell_rung := False\<rparr>) = endpoint_inv ep"
  by (simp add: endpoint_inv_def)

lemma HandleMmioWrite_inv:
  assumes "HandleMmioWrite env msg ep = Some ep'" "endpoint_inv ep"
  shows "endpoint_inv ep'"
proof -
  obtain st ep1 where w: "WriteRegisters (address (header msg)) (payload msg) ep = (st, ep1)" by fastforce
  with assms(1) obtain ep2 where
    r: "endpoint_respond (MakeHeader kMmioWriteRsp (txn_id (header msg)) (address (header msg)) 0 st (sim_time_ns ep1) 0 kFlagIsResponse 0) [] ep1 = Some ep2"
    and ep': "(if doorbell_rung ep2 then RunDmaSequence env (ep2\<lparr>doorbell_rung := False\<rparr>) else Some ep2) = Some ep'"
    by (auto simp: HandleMmioWrite_def Let_def split: option.splits)
  have "endpoint_inv (ep2\<lparr>doorbell_rung := False\<rparr>)"
    using endpoint_inv_respond [OF r WriteRegisters_ready [OF w]] WriteRegisters_frame [OF w] assms(2)
    by (simp add: endpoint_inv_def)
  with ep' show ?thesis by (auto simp: endpoint_inv_doorbell split: if_splits intro: RunDmaSequence_inv)
qed

lemma Handle_inv:
  assumes "Handle env msg ep = Some ep'" "endpoint_inv ep"
  shows "endpoint_inv ep'"
proof -
  have reset: "endpoint_inv ep'" if "HandleReset msg ep = Some ep'"
    using that assms(2) endpoint_respond_inv
    by (fastforce simp: HandleReset_def Let_def endpoint_inv_def same_regs_def)
  have read: "endpoint_inv ep'" if "HandleMmioRead msg ep = Some ep'"
    using that assms(2) endpoint_respond_inv
    by (fastforce simp: HandleMmioRead_def Let_def endpoint_inv_def same_regs_def split: prod.splits)
  from assms reset read HandleMmioWrite_inv show ?thesis
    by (auto simp: Handle_def split: MessageType.splits)
qed

lemma PollInbound_endpoint_inv:
  assumes "PollInbound bs (server ep) = (r, srv)" "endpoint_inv ep"
  shows "endpoint_inv (ep\<lparr>server := srv\<rparr>)"
  using PollInbound_inv [OF _ assms(1)] assms(2) by (fastforce simp: endpoint_inv_def)

lemma Run_loop_inv:
  assumes "Run_loop p k envs ep = Some (b, ep')" "endpoint_inv ep"
  shows "endpoint_inv ep'"
  using assms
proof (induction p k envs ep rule: Run_loop.induct)
  case (2 p k env envs ep)
  show ?case
  proof (cases "p \<or> k < 200")
    case False
    with "2.prems" show ?thesis by auto
  next
    case True
    obtain r srv where r: "PollInbound (poll_wait env) (server ep) = (r, srv)" by fastforce
    note inv = PollInbound_endpoint_inv [OF r "2.prems"(2)]
    show ?thesis
    proof (cases r)
      case None
      with "2.IH"(1) [OF True _ _ _ inv] "2.prems"(1) True r show ?thesis by simp
    next
      case (Some msg)
      let ?ep = "ep\<lparr>server := srv, sim_time_ns := sim_time_ns ep + 15\<rparr>"
      have inv': "endpoint_inv ?ep" using inv by simp
      show ?thesis
      proof (cases "Type (header msg) = kShutdown")
        case True
        with "2.prems"(1) \<open>p \<or> k < 200\<close> r Some inv' show ?thesis by auto
      next
        case False
        with "2.prems"(1) True r Some obtain ep1 where h: "Handle env msg ?ep = Some ep1"
          and run: "Run_loop p 0 envs ep1 = Some (b, ep')"
          by (auto simp: Let_def split: option.splits)
        from "2.IH"(2) [OF True r [unfolded Some, symmetric] refl refl False h run Handle_inv [OF h inv']]
        show ?thesis .
      qed
    qed
  qed
qed auto

section \<open>Handlers on a cooperative connection\<close>

text \<open>A connection that is up and can still read \<open>n\<close> and write \<open>k\<close> bytes.\<close>

definition link_up :: "nat \<Rightarrow> nat \<Rightarrow> SoftwareEndpointModel \<Rightarrow> bool" where
  "link_up n k ep \<longleftrightarrow> running (server ep) \<and> \<not> stop_requested (server ep) \<and> has_client (server ep) \<and>
     cooperative n k (client_socket (server ep))"

abbreviation sent :: "SoftwareEndpointModel \<Rightarrow> bytes" where
  "sent ep \<equiv> tx (client_socket (server ep))"

abbreviation incoming :: "SoftwareEndpointModel \<Rightarrow> bytes" where
  "incoming ep \<equiv> rx (client_socket (server ep))"

lemma endpoint_respond_link:
  assumes "link_up n (64 + length pl + k) ep"
  shows "\<exists>srv. endpoint_respond rsp pl ep = Some (ep\<lparr>server := srv\<rparr>) \<and> link_up n k (ep\<lparr>server := srv\<rparr>) \<and>
    tx (client_socket srv) = sent ep @ SerializeMessage rsp pl \<and> rx (client_socket srv) = incoming ep \<and>
    txn_gen srv = txn_gen (server ep)"
proof -
  from SendResponse_cooperative [of "server ep" n pl k rsp] assms obtain s where
    "SendResponse rsp pl (server ep) = Some (True, (server ep)\<lparr>client_socket := s\<rparr>)" "cooperative n k s"
    "tx s = sent ep @ SerializeMessage rsp pl" "rx s = incoming ep"
    by (auto simp: link_up_def)
  with assms show ?thesis
    by (intro exI [of _ "(server ep)\<lparr>client_socket := s\<rparr>"]) (simp add: endpoint_respond_def link_up_def)
qed

lemma endpoint_request_link:
  assumes "link_up (65 + length (payload m) + n) (64 + length pl + k) ep" "valid_message m" "is_dma_rsp m"
    and "txn_id (header m) = next_id (txn_gen (server ep))" "incoming ep = wire m @ rest"
  shows "\<exists>srv. endpoint_request ty ad pl xl True [[OpIo]] ep = Some (Some m, ep\<lparr>server := srv\<rparr>) \<and>
    link_up n k (ep\<lparr>server := srv\<rparr>) \<and> rx (client_socket srv) = rest \<and>
    next_id (txn_gen srv) = next_id (txn_gen (server ep)) + 1 \<and>
    tx (client_socket srv) = sent ep @ SerializeMessage
      (MakeHeader ty (next_id (txn_gen (server ep))) ad 0 kSuccess (sim_time_ns ep) (of_nat (length pl)) kFlagNone xl) pl"
proof -
  have "Type (header m) \<noteq> kShutdown" using assms(3) by (auto simp: is_dma_rsp_def)
  with SendRequestToHost_delivers [of "server ep" "[m]" "[]" m "[]" rest n pl k ty ad 0 xl "sim_time_ns ep"] assms
  show ?thesis by (auto simp: endpoint_request_def link_up_def stream_cost_def)
qed

lemma endpoint_notify_link:
  assumes "link_up n (64 + length pl + k) ep"
  shows "\<exists>srv. endpoint_request ty ad pl xl False bs ep = Some (None, ep\<lparr>server := srv\<rparr>) \<and>
    link_up n k (ep\<lparr>server := srv\<rparr>) \<and> rx (client_socket srv) = incoming ep \<and>
    next_id (txn_gen srv) = next_id (txn_gen (server ep)) + 1 \<and>
    tx (client_socket srv) = sent ep @ SerializeMessage
      (MakeHeader ty (next_id (txn_gen (server ep))) ad 0 kSuccess (sim_time_ns ep) (of_nat (length pl)) kFlagNone xl) pl"
proof -
  let ?req = "SerializeMessage
      (MakeHeader ty (next_id (txn_gen (server ep))) ad 0 kSuccess (sim_time_ns ep) (of_nat (length pl)) kFlagNone xl) pl"
  from SendAll_cooperative [of n "64 + length pl + k" "client_socket (server ep)" ?req] assms show ?thesis
    by (auto simp: endpoint_request_def link_up_def SendRequestToHost_def Next_def Let_def SerializeMessage_def)
qed

lemma length_completion [simp]: "length completion = 16"
  by (simp add: completion_def)

text \<open>What the host sees of a complete DMA sequence, from the id and time the endpoint has before it.\<close>

definition dma_read_req :: "u64 \<Rightarrow> u64 \<Rightarrow> u64 \<Rightarrow> bytes" where
  "dma_read_req t ts ad = SerializeMessage (MakeHeader kDmaReadReq t ad 0 kSuccess ts 0 kFlagNone 64) []"

definition dma_write_req :: "u64 \<Rightarrow> u64 \<Rightarrow> u64 \<Rightarrow> bytes" where
  "dma_write_req t ts ad = SerializeMessage (MakeHeader kDmaWriteReq t ad 0 kSuccess ts 16 kFlagNone 16) completion"

definition msix_req :: "u64 \<Rightarrow> u64 \<Rightarrow> bytes" where
  "msix_req t ts = SerializeMessage (MakeHeader kMsiX t 0 0 kSuccess ts 0 kFlagNone 0) []"

lemma RunDmaSequence_ok:
  assumes link: "link_up (130 + length (payload m1) + length (payload m2) + n) (208 + k) ep"
    and m1: "valid_message m1" "is_dma_rsp m1" "txn_id (header m1) = t" "Status (header m1) = kSuccess"
    and m2: "valid_message m2" "is_dma_rsp m2" "txn_id (header m2) = t + 1" "Status (header m2) = kSuccess"
    and env: "read_wait env = [[OpIo]]" "write_wait env = [[OpIo]]"
    and rx: "incoming ep = wire m1 @ wire m2 @ rest" and t: "t = next_id (txn_gen (server ep))"
  shows "\<exists>ep'. RunDmaSequence env ep = Some ep' \<and> same_regs ep ep' \<and> link_up n k ep' \<and> incoming ep' = rest \<and>
    sent ep' = sent ep @ dma_read_req t (sim_time_ns ep + 60) (asq ep) @
      dma_write_req (t + 1) (sim_time_ns ep + 105) (acq ep) @ msix_req (t + 2) (sim_time_ns ep + 135) \<and>
    sim_time_ns ep' = sim_time_ns ep + 135"
proof -
  let ?ep1 = "ep\<lparr>sim_time_ns := sim_time_ns ep + 60\<rparr>"
  have "link_up (65 + length (payload m1) + (65 + length (payload m2) + n)) (64 + length ([] :: bytes) + (144 + k)) ?ep1"
    using link by (simp add: link_up_def algebra_simps)
  from endpoint_request_link [OF this m1(1,2), of "wire m2 @ rest" kDmaReadReq "asq ep" 64] m1(3) rx t obtain srv1 where
    r1: "endpoint_request kDmaReadReq (asq ep) [] 64 True [[OpIo]] ?ep1 = Some (Some m1, ?ep1\<lparr>server := srv1\<rparr>)"
    and l1: "link_up (65 + length (payload m2) + n) (144 + k) (?ep1\<lparr>server := srv1\<rparr>)" "rx (client_socket srv1) = wire m2 @ rest"
      "next_id (txn_gen srv1) = t + 1" "tx (client_socket srv1) = sent ep @ dma_read_req t (sim_time_ns ep + 60) (asq ep)"
    by (auto simp: dma_read_req_def)
  let ?ep2 = "ep\<lparr>server := srv1, sim_time_ns := sim_time_ns ep + 105\<rparr>"
  have "link_up (65 + length (payload m2) + n) (64 + length completion + (64 + k)) ?ep2"
    using l1(1) by (simp add: link_up_def)
  from endpoint_request_link [OF this m2(1,2), of rest kDmaWriteReq "acq ep" 16] m2(3) l1 obtain srv2 where
    r2: "endpoint_request kDmaWriteReq (acq ep) completion 16 True [[OpIo]] ?ep2 = Some (Some m2, ?ep2\<lparr>server := srv2\<rparr>)"
    and l2: "link_up n (64 + k) (?ep2\<lparr>server := srv2\<rparr>)" "rx (client_socket srv2) = rest" "next_id (txn_gen srv2) = t + 2"
      "tx (client_socket srv2) = tx (client_socket srv1) @ dma_write_req (t + 1) (sim_time_ns ep + 105) (acq ep)"
    by (auto simp: dma_write_req_def)
  let ?ep3 = "ep\<lparr>server := srv2, sim_time_ns := sim_time_ns ep + 135\<rparr>"
  have "link_up n (64 + length ([] :: bytes) + k) ?ep3" using l2(1) by (simp add: link_up_def)
  from endpoint_notify_link [OF this, of kMsiX 0 0 "[]"] l2 obtain srv3 where
    r3: "endpoint_request kMsiX 0 [] 0 False [] ?ep3 = Some (None, ?ep3\<lparr>server := srv3\<rparr>)"
    and l3: "link_up n k (?ep3\<lparr>server := srv3\<rparr>)" "rx (client_socket srv3) = rest"
      "tx (client_socket srv3) = tx (client_socket srv2) @ msix_req (t + 2) (sim_time_ns ep + 135)"
    by (auto simp: msix_req_def)
  have "RunDmaSequence env ep = Some (?ep3\<lparr>server := srv3\<rparr>)"
    using r1 r2 r3 m1(4) m2(4) env by (simp add: RunDmaSequence_def Let_def succeeded_def add.assoc)
  with l1(4) l2(4) l3 show ?thesis by (simp add: same_regs_def)
qed

lemma RunDmaSequence_read_fails:
  assumes link: "link_up (65 + length (payload m1) + n) (64 + k) ep"
    and m1: "valid_message m1" "is_dma_rsp m1" "txn_id (header m1) = t" "Status (header m1) \<noteq> kSuccess"
    and env: "read_wait env = [[OpIo]]"
    and rx: "incoming ep = wire m1 @ rest" and t: "t = next_id (txn_gen (server ep))"
  shows "\<exists>ep'. RunDmaSequence env ep = Some ep' \<and> same_regs ep ep' \<and>
    sent ep' = sent ep @ dma_read_req t (sim_time_ns ep + 60) (asq ep) \<and> incoming ep' = rest"
proof -
  let ?ep1 = "ep\<lparr>sim_time_ns := sim_time_ns ep + 60\<rparr>"
  have "link_up (65 + length (payload m1) + n) (64 + length ([] :: bytes) + k) ?ep1"
    using link by (simp add: link_up_def)
  from endpoint_request_link [OF this m1(1,2), of rest kDmaReadReq "asq ep" 64] m1(3) rx t obtain srv1 where
    "endpoint_request kDmaReadReq (asq ep) [] 64 True [[OpIo]] ?ep1 = Some (Some m1, ?ep1\<lparr>server := srv1\<rparr>)"
    "tx (client_socket srv1) = sent ep @ dma_read_req t (sim_time_ns ep + 60) (asq ep)" "rx (client_socket srv1) = rest"
    by (auto simp: dma_read_req_def)
  with m1(4) env show ?thesis by (simp add: RunDmaSequence_def Let_def succeeded_def same_regs_def)
qed

definition write_rsp :: "Message \<Rightarrow> u64 \<Rightarrow> StatusCode \<Rightarrow> bytes" where
  "write_rsp w ts st = SerializeMessage
     (MakeHeader kMmioWriteRsp (txn_id (header w)) (address (header w)) 0 st ts 0 kFlagIsResponse 0) []"

definition read_rsp :: "Message \<Rightarrow> u64 \<Rightarrow> StatusCode \<Rightarrow> bytes \<Rightarrow> bytes" where
  "read_rsp r ts st pl = SerializeMessage
     (MakeHeader kMmioReadRsp (txn_id (header r)) (address (header r)) 0 st ts (of_nat (length pl)) kFlagIsResponse 0) pl"

lemma HandleMmioWrite_link:
  assumes "link_up n (64 + k) ep" "WriteRegisters (address (header w)) (payload w) ep = (st, ep1)"
  shows "\<exists>srv. HandleMmioWrite env w ep =
      (if doorbell_rung ep1 then RunDmaSequence env (ep1\<lparr>server := srv, doorbell_rung := False\<rparr>) else Some (ep1\<lparr>server := srv\<rparr>)) \<and>
    link_up n k (ep1\<lparr>server := srv\<rparr>) \<and> tx (client_socket srv) = sent ep @ write_rsp w (sim_time_ns ep) st \<and>
    rx (client_socket srv) = incoming ep \<and> txn_gen srv = txn_gen (server ep)"
proof -
  from WriteRegisters_frame [OF assms(2)] have f: "server ep1 = server ep" "sim_time_ns ep1 = sim_time_ns ep" by auto
  with assms(1) have "link_up n (64 + length ([] :: bytes) + k) ep1" by (simp add: link_up_def)
  from endpoint_respond_link [OF this, of "MakeHeader kMmioWriteRsp (txn_id (header w)) (address (header w)) 0 st (sim_time_ns ep) 0 kFlagIsResponse 0"]
    f assms(2) show ?thesis by (auto simp: HandleMmioWrite_def write_rsp_def Let_def)
qed

lemma HandleMmioRead_link:
  assumes "link_up n (64 + length pl + k) ep"
    and "ReadRegisters (address (header r)) (transfer_len (header r)) (byte_enable (header r)) ep = (st, pl)"
  shows "\<exists>srv. HandleMmioRead r ep = Some (ep\<lparr>server := srv\<rparr>) \<and>
    link_up n k (ep\<lparr>server := srv\<rparr>) \<and> tx (client_socket srv) = sent ep @ read_rsp r (sim_time_ns ep) st pl \<and>
    rx (client_socket srv) = incoming ep \<and> txn_gen srv = txn_gen (server ep)"
  using endpoint_respond_link [OF assms(1), of "MakeHeader kMmioReadRsp (txn_id (header r)) (address (header r)) 0 st (sim_time_ns ep) (of_nat (length pl)) kFlagIsResponse 0"] assms(2)
  by (auto simp: HandleMmioRead_def read_rsp_def Let_def)

lemma length_u32_eq:
  assumes "length pl \<le> 16 * 1024 * 1024" "n < 2 ^ 32"
  shows "(of_nat (length pl) :: u32) = of_nat n \<longleftrightarrow> length pl = n"
  using assms(2) payload_fits(1) [OF assms(1)] by (simp add: word_unat_eq_iff unat_of_nat)

lemma WriteRegisters_verdict:
  assumes "length pl \<le> 16 * 1024 * 1024" "WriteRegisters addr pl ep = (st, ep')"
  shows "st = kSuccess \<longleftrightarrow> (addr, length pl) \<in> {(0x14, 4), (0x28, 8), (0x30, 8), (0x24, 4), (0x1000, 4)}"
    and "st \<noteq> kSuccess \<Longrightarrow> ep' = ep"
proof -
  have eq: "(of_nat (length pl) :: u32) = 4 \<longleftrightarrow> length pl = 4" "(of_nat (length pl) :: u32) = 8 \<longleftrightarrow> length pl = 8"
    using length_u32_eq [OF assms(1), of 4] length_u32_eq [OF assms(1), of 8] by simp_all
  show "st = kSuccess \<longleftrightarrow> (addr, length pl) \<in> {(0x14, 4), (0x28, 8), (0x30, 8), (0x24, 4), (0x1000, 4)}"
    using assms(2) by (auto simp: WriteRegisters_def Let_def AddrValid_def eq endpoint_regs split: if_splits)
  show "st \<noteq> kSuccess \<Longrightarrow> ep' = ep"
    using assms(2) by (auto simp: WriteRegisters_def Let_def split: if_splits)
qed

definition read_len :: "u32 \<Rightarrow> u64 \<Rightarrow> u32" where
  "read_len tlen be = (if tlen = 0 then of_nat (popcount be) else tlen)"

definition register_value :: "u64 \<Rightarrow> SoftwareEndpointModel \<Rightarrow> u32 option" where
  "register_value addr ep =
     [0x0 \<mapsto> 1, 0x14 \<mapsto> cc ep, 0x1C \<mapsto> csts ep, 0x24 \<mapsto> aqa ep] addr"

lemma ReadRegisters_verdict:
  "ReadRegisters addr tlen be ep =
     (case register_value addr ep of
        None \<Rightarrow> (kErrorInvalidAddress, [])
      | Some v \<Rightarrow> if read_len tlen be \<in> {1, 2, 4, 8}
                   then (kSuccess, le_bytes (unat (read_len tlen be)) (ucast v :: u64))
                   else (kErrorBadLength, []))"
  by (auto simp: ReadRegisters_def register_value_def read_len_def Let_def AddrValid_def endpoint_regs kCapabilities_def
      le_bytes_def byte_of_def split: if_splits)

lemma le_bytes_ucast: "le_bytes 4 (ucast (v :: u32) :: u64) = le_bytes 4 v"
  by (auto simp: le_bytes_def intro!: bit_word_eqI simp: bit_byte_of bit_ucast_iff)

lemma read_back_bytes: "length pl = 4 \<Longrightarrow> le_bytes 4 (ucast (le_value pl :: u32) :: u64) = pl"
  using le_bytes_le_value [of pl, where 'a = 32] by (simp add: le_bytes_ucast)

lemma write_read_registers:
  assumes "length pl = 4" "reg = kCcReg \<or> reg = kAqaReg" "WriteRegisters reg pl ep = (st, ep')"
  shows "st = kSuccess" "doorbell_rung ep' = doorbell_rung ep" "ReadRegisters reg 4 be (ep'\<lparr>server := srv\<rparr>) = (kSuccess, pl)"
proof -
  show "st = kSuccess" "doorbell_rung ep' = doorbell_rung ep"
    using assms by (auto simp: WriteRegisters_def Let_def AddrValid_def endpoint_regs split: if_splits)
  have "register_value reg (ep'\<lparr>server := srv\<rparr>) = Some (le_value pl)"
    using assms
    by (auto simp: WriteRegisters_def Let_def AddrValid_def endpoint_regs register_value_def DecodeU32_le_value split: if_splits)
  then show "ReadRegisters reg 4 be (ep'\<lparr>server := srv\<rparr>) = (kSuccess, pl)"
    by (simp add: ReadRegisters_verdict read_len_def read_back_bytes [OF assms(1)])
qed

section \<open>Properties of the endpoint\<close>

definition sample_endpoint :: "bytes \<Rightarrow> SoftwareEndpointModel" where
  "sample_endpoint inb = new_SoftwareEndpointModel (sample_server 500 inb)"

lemma sample_endpoint_simps [simp]:
  "server (sample_endpoint inb) = sample_server 500 inb" "sim_time_ns (sample_endpoint inb) = 100"
  "asq (sample_endpoint inb) = 0" "acq (sample_endpoint inb) = 0" "\<not> doorbell_rung (sample_endpoint inb)"
  by (simp_all add: sample_endpoint_def new_SoftwareEndpointModel_def)

lemma sample_endpoint_link: "n \<le> 500 \<Longrightarrow> k \<le> 500 \<Longrightarrow> link_up n k (sample_endpoint inb)"
  by (simp add: link_up_def ideal_socket_cooperative)

definition mmio_msg :: "MessageType \<Rightarrow> u64 \<Rightarrow> u64 \<Rightarrow> u32 \<Rightarrow> bytes \<Rightarrow> Message" where
  "mmio_msg ty t ad xl pl = \<lparr> header = MakeHeader ty t ad 0 kSuccess 0 (of_nat (length pl)) kFlagNone xl, payload = pl \<rparr>"

lemma mmio_msg_simps [simp]:
  "ty \<notin> range OtherMessageType \<Longrightarrow> Type (header (mmio_msg ty t ad xl pl)) = ty"
  "txn_id (header (mmio_msg ty t ad xl pl)) = t" "address (header (mmio_msg ty t ad xl pl)) = ad"
  "payload (mmio_msg ty t ad xl pl) = pl" "xl \<noteq> 0 \<Longrightarrow> transfer_len (header (mmio_msg ty t ad xl pl)) = xl"
  by (simp_all add: mmio_msg_def transfer_len_MakeHeader)

definition quiet_env :: EndpointEnv where
  "quiet_env = \<lparr> poll_wait = [], read_wait = [[OpIo]], write_wait = [[OpIo]] \<rparr>"

lemma quiet_env_simps [simp]:
  "poll_wait quiet_env = []" "read_wait quiet_env = [[OpIo]]" "write_wait quiet_env = [[OpIo]]"
  by (simp_all add: quiet_env_def)

text \<open>
  C8: the ready bit tracks the enable bit. Whatever messages arrive, in whatever interleaving with the
  I/O thread, after any number of polls \<open>CSTS\<close> is exactly bit 0 of \<open>CC\<close>, no doorbell is left unserved and
  no DMA request is left pending.
\<close>

theorem endpoint_invariant:
  assumes "server_inv srv" "pending srv = Map.empty" "Run persistent envs (new_SoftwareEndpointModel srv) = Some (b, ep)"
  shows "csts ep = cc ep AND 1 \<and> \<not> doorbell_rung ep \<and> pending (server ep) = Map.empty"
proof -
  have "endpoint_inv (new_SoftwareEndpointModel srv)"
    using assms(1,2) by (simp add: endpoint_inv_def new_SoftwareEndpointModel_def)
  from Run_loop_inv [OF assms(3) [unfolded Run_def] this] show ?thesis by (simp add: endpoint_inv_def)
qed

theorem endpoint_invariant_witness:
  "\<exists>ep. Run False [quiet_env] (new_SoftwareEndpointModel
       (put_queue \<lparr>queue = [mmio_msg kMmioWriteReq 3 kCcReg 0 [1, 0, 0, 0]], shutdown_flag = False\<rparr> (sample_server 500 [])))
     = Some (False, ep) \<and> csts ep = cc ep AND 1 \<and> \<not> doorbell_rung ep"
proof -
  let ?w = "mmio_msg kMmioWriteReq 3 kCcReg 0 [1, 0, 0, 0]"
  let ?srv = "put_queue \<lparr>queue = [?w], shutdown_flag = False\<rparr> (sample_server 500 [])"
  let ?ep = "(new_SoftwareEndpointModel (put_queue \<lparr>queue = [], shutdown_flag = False\<rparr> ?srv))\<lparr>sim_time_ns := 115\<rparr>"
  have inv: "server_inv ?srv" "pending ?srv = Map.empty"
    using sample_server_inv [of 500 "[]"] by (simp_all add: put_queue_def server_inv_def)
  have link: "link_up 0 (64 + 0) ?ep"
    by (simp add: link_up_def new_SoftwareEndpointModel_def put_queue_def ideal_socket_cooperative)
  obtain st ep1 where w: "WriteRegisters (address (header ?w)) (payload ?w) ?ep = (st, ep1)" by fastforce
  then have "\<not> doorbell_rung ep1"
    using write_read_registers(2) [of "payload ?w" kCcReg ?ep st ep1]
    by (simp add: new_SoftwareEndpointModel_def)
  with HandleMmioWrite_link [OF link w, of quiet_env] obtain ep2 where "Handle quiet_env ?w ?ep = Some ep2"
    by (auto simp: Handle_def image_iff)
  then have r: "Run False [quiet_env] (new_SoftwareEndpointModel ?srv) = Some (False, ep2)"
    using PollInbound_ready [of ?srv ?w "[]" "poll_wait quiet_env"]
    by (simp add: Run_def Let_def new_SoftwareEndpointModel_def put_queue_def image_iff)
  from endpoint_invariant [OF inv r] r show ?thesis by blast
qed

text \<open>
  C31: which writes are accepted. A write succeeds exactly at the five (address, length) pairs of CC, ASQ,
  ACQ, AQA and the doorbell; a rejected write changes nothing.
\<close>

theorem write_accepted_iff:
  assumes "length pl \<le> 16 * 1024 * 1024"
  shows "(fst (WriteRegisters addr pl ep) = kSuccess \<longleftrightarrow>
            (addr, length pl) \<in> {(0x14, 4), (0x28, 8), (0x30, 8), (0x24, 4), (0x1000, 4)}) \<and>
         (fst (WriteRegisters addr pl ep) \<noteq> kSuccess \<longrightarrow> snd (WriteRegisters addr pl ep) = ep)"
  using WriteRegisters_verdict [OF assms, of addr ep] by (metis prod.collapse)

theorem write_accepted_iff_witness:
  "fst (WriteRegisters 0x14 [1, 0, 0, 0] (sample_endpoint [])) = kSuccess \<and>
   snd (WriteRegisters 0x18 [1, 0, 0, 0] (sample_endpoint [])) = sample_endpoint []"
  using write_accepted_iff [of "[1, 0, 0, 0]" "0x14" "sample_endpoint []"]
    write_accepted_iff [of "[1, 0, 0, 0]" "0x18" "sample_endpoint []"]
  by auto

text \<open>
  What a read returns. A read succeeds exactly at the capability, CC, CSTS and AQA registers with a
  length of 1, 2, 4 or 8 bytes (taken from the transfer length, or from the byte enables when that is 0),
  and then returns the register's value in little-endian order, zero-extended; an unknown address and a bad
  length are told apart.
\<close>

theorem read_result:
  "ReadRegisters addr tlen be ep =
     (case register_value addr ep of
        None \<Rightarrow> (kErrorInvalidAddress, [])
      | Some v \<Rightarrow> if read_len tlen be \<in> {1, 2, 4, 8}
                   then (kSuccess, le_bytes (unat (read_len tlen be)) (ucast v :: u64))
                   else (kErrorBadLength, []))"
  by (rule ReadRegisters_verdict)

lemma register_write_read:
  assumes "link_up n (132 + k) ep" "\<not> doorbell_rung ep"
    and "Type (header w) = kMmioWriteReq" "address (header w) = reg" "length (payload w) = 4" "reg = kCcReg \<or> reg = kAqaReg"
    and "Type (header r) = kMmioReadReq" "address (header r) = reg" "transfer_len (header r) = 4"
  shows "\<exists>ep1 ep2. Handle env w ep = Some ep1 \<and> Handle env' r ep1 = Some ep2 \<and> link_up n k ep2 \<and>
    sent ep1 = sent ep @ write_rsp w (sim_time_ns ep) kSuccess \<and>
    sent ep2 = sent ep1 @ read_rsp r (sim_time_ns ep) kSuccess (payload w)"
proof -
  obtain st ep1 where wr: "WriteRegisters (address (header w)) (payload w) ep = (st, ep1)" by fastforce
  note raw = write_read_registers [OF assms(5,6) wr [unfolded assms(4)]]
  have l: "link_up n (64 + (68 + k)) ep" using assms(1) by simp
  from HandleMmioWrite_link [OF l wr, of env] raw(1,2) assms(2) obtain srv where
    w: "HandleMmioWrite env w ep = Some (ep1\<lparr>server := srv\<rparr>)" "link_up n (68 + k) (ep1\<lparr>server := srv\<rparr>)"
      "tx (client_socket srv) = sent ep @ write_rsp w (sim_time_ns ep) kSuccess"
    by auto
  have "link_up n (64 + length (payload w) + k) (ep1\<lparr>server := srv\<rparr>)" using w(2) assms(5) by simp
  from HandleMmioRead_link [OF this, of r kSuccess] raw(3) assms(8,9) obtain srv' where
    "HandleMmioRead r (ep1\<lparr>server := srv\<rparr>) = Some (ep1\<lparr>server := srv'\<rparr>)" "link_up n k (ep1\<lparr>server := srv'\<rparr>)"
    "tx (client_socket srv') = tx (client_socket srv) @ read_rsp r (sim_time_ns ep1) kSuccess (payload w)"
    by auto
  with w WriteRegisters_frame [OF wr] assms(3,7) show ?thesis by (simp add: Handle_def)
qed

text \<open>
  C30: a register reads back what was written to it. On a connection that is up, a 4-byte write to CC or
  AQA followed by a 4-byte read of the same register makes the endpoint send exactly two responses: the
  successful write response and then a read response whose payload is the bytes that were written, each
  with the transaction id of its request.
\<close>

theorem mmio_write_then_read:
  assumes "link_up n (132 + k) ep" "\<not> doorbell_rung ep"
    and "Type (header w) = kMmioWriteReq" "address (header w) = reg" "length (payload w) = 4" "reg = kCcReg \<or> reg = kAqaReg"
    and "Type (header r) = kMmioReadReq" "address (header r) = reg" "transfer_len (header r) = 4"
  shows "\<exists>ep1 ep2. Handle env w ep = Some ep1 \<and> Handle env' r ep1 = Some ep2 \<and> link_up n k ep2 \<and>
    sent ep2 = sent ep @ write_rsp w (sim_time_ns ep) kSuccess @ read_rsp r (sim_time_ns ep) kSuccess (payload w)"
  using register_write_read [OF assms, of env env'] by auto

theorem mmio_write_then_read_witness:
  "\<exists>ep1 ep2. Handle quiet_env (mmio_msg kMmioWriteReq 3 kCcReg 0 [1, 0, 70, 0]) (sample_endpoint []) = Some ep1 \<and>
    Handle quiet_env (mmio_msg kMmioReadReq 4 kCcReg 4 []) ep1 = Some ep2 \<and>
    sent ep2 = write_rsp (mmio_msg kMmioWriteReq 3 kCcReg 0 [1, 0, 70, 0]) 100 kSuccess @
      read_rsp (mmio_msg kMmioReadReq 4 kCcReg 4 []) 100 kSuccess [1, 0, 70, 0]"
  using mmio_write_then_read [of 0 0 "sample_endpoint []" "mmio_msg kMmioWriteReq 3 kCcReg 0 [1, 0, 70, 0]" kCcReg
      "mmio_msg kMmioReadReq 4 kCcReg 4 []" quiet_env quiet_env] sample_endpoint_link [of 0 132 "[]"]
  by (auto simp: image_iff)

lemma doorbell_sequence:
  assumes "link_up (130 + length (payload m1) + length (payload m2) + n) (272 + k) ep"
    and "Type (header w) = kMmioWriteReq" "address (header w) = kSq0Doorbell" "length (payload w) = 4"
    and "valid_message m1" "is_dma_rsp m1" "txn_id (header m1) = next_id (txn_gen (server ep))" "Status (header m1) = kSuccess"
    and "valid_message m2" "is_dma_rsp m2" "txn_id (header m2) = next_id (txn_gen (server ep)) + 1" "Status (header m2) = kSuccess"
    and "read_wait env = [[OpIo]]" "write_wait env = [[OpIo]]" "incoming ep = wire m1 @ wire m2 @ rest"
  shows "\<exists>ep'. Handle env w ep = Some ep' \<and> same_regs ep ep' \<and> link_up n k ep' \<and> incoming ep' = rest \<and>
    sent ep' = sent ep @ write_rsp w (sim_time_ns ep) kSuccess @
      dma_read_req (next_id (txn_gen (server ep))) (sim_time_ns ep + 60) (asq ep) @
      dma_write_req (next_id (txn_gen (server ep)) + 1) (sim_time_ns ep + 105) (acq ep) @
      msix_req (next_id (txn_gen (server ep)) + 2) (sim_time_ns ep + 135)"
proof -
  have wr: "WriteRegisters (address (header w)) (payload w) ep = (kSuccess, ep\<lparr>doorbell_rung := True\<rparr>)"
    using assms(3,4) by (simp add: WriteRegisters_def Let_def AddrValid_def endpoint_regs)
  have "link_up (130 + length (payload m1) + length (payload m2) + n) (64 + (208 + k)) ep" using assms(1) by simp
  from HandleMmioWrite_link [OF this wr, of env] obtain srv where
    h: "HandleMmioWrite env w ep = RunDmaSequence env (ep\<lparr>server := srv, doorbell_rung := False\<rparr>)"
    and l: "link_up (130 + length (payload m1) + length (payload m2) + n) (208 + k) (ep\<lparr>server := srv, doorbell_rung := False\<rparr>)"
      "tx (client_socket srv) = sent ep @ write_rsp w (sim_time_ns ep) kSuccess" "rx (client_socket srv) = incoming ep"
      "txn_gen srv = txn_gen (server ep)"
    by (auto simp: link_up_def)
  from RunDmaSequence_ok [OF l(1) assms(5,6) _ assms(8-10) _ assms(12-14), where rest = rest] l(2-) assms(7,11,15)
  show ?thesis using assms(2) by (auto simp: Handle_def h same_regs_def)
qed

text \<open>
  C5: ringing the doorbell performs the whole device-initiated sequence in order. On a connection that is
  up, when the host answers both DMA requests successfully, a doorbell write makes the endpoint send exactly
  its write response, a 64-byte DMA read of the submission queue base, a DMA write of the 16-byte completion
  to the completion queue base, and an MSI-X notification, with consecutive transaction ids and increasing
  times, and the registers keep their values.
\<close>

theorem doorbell_runs_dma_sequence:
  assumes "link_up (130 + length (payload m1) + length (payload m2) + n) (272 + k) ep"
    and "Type (header w) = kMmioWriteReq" "address (header w) = kSq0Doorbell" "length (payload w) = 4"
    and "valid_message m1" "is_dma_rsp m1" "txn_id (header m1) = next_id (txn_gen (server ep))" "Status (header m1) = kSuccess"
    and "valid_message m2" "is_dma_rsp m2" "txn_id (header m2) = next_id (txn_gen (server ep)) + 1" "Status (header m2) = kSuccess"
    and "read_wait env = [[OpIo]]" "write_wait env = [[OpIo]]" "incoming ep = wire m1 @ wire m2 @ rest"
  shows "\<exists>ep'. Handle env w ep = Some ep' \<and> same_regs ep ep' \<and> link_up n k ep' \<and> incoming ep' = rest \<and>
    sent ep' = sent ep @ write_rsp w (sim_time_ns ep) kSuccess @
      dma_read_req (next_id (txn_gen (server ep))) (sim_time_ns ep + 60) (asq ep) @
      dma_write_req (next_id (txn_gen (server ep)) + 1) (sim_time_ns ep + 105) (acq ep) @
      msix_req (next_id (txn_gen (server ep)) + 2) (sim_time_ns ep + 135)"
  using doorbell_sequence [OF assms] .

theorem doorbell_runs_dma_sequence_witness:
  "\<exists>ep'. Handle quiet_env (mmio_msg kMmioWriteReq 9 kSq0Doorbell 0 [1, 0, 0, 0])
       (sample_endpoint (wire (sample_msg kDmaReadRsp 1 [5]) @ wire (sample_msg kDmaWriteRsp 2 []))) = Some ep' \<and>
    sent ep' = write_rsp (mmio_msg kMmioWriteReq 9 kSq0Doorbell 0 [1, 0, 0, 0]) 100 kSuccess @
      dma_read_req 1 160 0 @ dma_write_req 2 205 0 @ msix_req 3 235"
  using doorbell_runs_dma_sequence [of "sample_msg kDmaReadRsp 1 [5]" "sample_msg kDmaWriteRsp 2 []" 0 0
      "sample_endpoint (wire (sample_msg kDmaReadRsp 1 [5]) @ wire (sample_msg kDmaWriteRsp 2 []))"
      "mmio_msg kMmioWriteReq 9 kSq0Doorbell 0 [1, 0, 0, 0]" quiet_env "[]"]
    sample_endpoint_link [of 131 272 "wire (sample_msg kDmaReadRsp 1 [5]) @ wire (sample_msg kDmaWriteRsp 2 [])"]
  by (auto simp: image_iff is_dma_rsp_def)

text \<open>
  A failed DMA read ends the sequence. If the host answers the DMA read with an error, the endpoint has
  sent its write response and the DMA read and nothing else: no completion is written and no interrupt
  raised for a command that was not fetched.
\<close>

theorem dma_read_failure_stops:
  assumes "link_up (65 + length (payload m1) + n) (128 + k) ep"
    and "Type (header w) = kMmioWriteReq" "address (header w) = kSq0Doorbell" "length (payload w) = 4"
    and "valid_message m1" "is_dma_rsp m1" "txn_id (header m1) = next_id (txn_gen (server ep))" "Status (header m1) \<noteq> kSuccess"
    and "read_wait env = [[OpIo]]" "incoming ep = wire m1 @ rest"
  shows "\<exists>ep'. Handle env w ep = Some ep' \<and> same_regs ep ep' \<and> incoming ep' = rest \<and>
    sent ep' = sent ep @ write_rsp w (sim_time_ns ep) kSuccess @
      dma_read_req (next_id (txn_gen (server ep))) (sim_time_ns ep + 60) (asq ep)"
proof -
  have wr: "WriteRegisters (address (header w)) (payload w) ep = (kSuccess, ep\<lparr>doorbell_rung := True\<rparr>)"
    using assms(3,4) by (simp add: WriteRegisters_def Let_def AddrValid_def endpoint_regs)
  have "link_up (65 + length (payload m1) + n) (64 + (64 + k)) ep" using assms(1) by simp
  from HandleMmioWrite_link [OF this wr, of env] obtain srv where
    h: "HandleMmioWrite env w ep = RunDmaSequence env (ep\<lparr>server := srv, doorbell_rung := False\<rparr>)"
    and l: "link_up (65 + length (payload m1) + n) (64 + k) (ep\<lparr>server := srv, doorbell_rung := False\<rparr>)"
      "tx (client_socket srv) = sent ep @ write_rsp w (sim_time_ns ep) kSuccess" "rx (client_socket srv) = incoming ep"
      "txn_gen srv = txn_gen (server ep)"
    by (auto simp: link_up_def)
  from RunDmaSequence_read_fails [OF l(1) assms(5,6) _ assms(8,9), where rest = rest] l(2-) assms(7,10)
  show ?thesis using assms(2) by (auto simp: Handle_def h same_regs_def)
qed

definition failed_rsp :: "MessageType \<Rightarrow> u64 \<Rightarrow> Message" where
  "failed_rsp ty t = \<lparr> header = MakeHeader ty t 0 0 kErrorOutOfBounds 0 0 kFlagIsResponse 0, payload = [] \<rparr>"

theorem dma_read_failure_stops_witness:
  "\<exists>ep'. Handle quiet_env (mmio_msg kMmioWriteReq 9 kSq0Doorbell 0 [1, 0, 0, 0])
       (sample_endpoint (wire (failed_rsp kDmaReadRsp 1))) = Some ep' \<and>
    sent ep' = write_rsp (mmio_msg kMmioWriteReq 9 kSq0Doorbell 0 [1, 0, 0, 0]) 100 kSuccess @ dma_read_req 1 160 0"
  using dma_read_failure_stops [of "failed_rsp kDmaReadRsp 1" 0 0 "sample_endpoint (wire (failed_rsp kDmaReadRsp 1))"
      "mmio_msg kMmioWriteReq 9 kSq0Doorbell 0 [1, 0, 0, 0]" quiet_env "[]"]
    sample_endpoint_link [of 65 128 "wire (failed_rsp kDmaReadRsp 1)"]
  by (auto simp: image_iff is_dma_rsp_def failed_rsp_def valid_message_def kMaxPayloadSize_def)

lemma Run_loop_quiet:
  assumes "\<forall>env\<in>set envs. concat (poll_wait env) = []" "queue (inbound_queue (server ep)) = []"
  shows "Run_loop False k envs ep = Some (200 \<le> k + length envs, ep)"
  using assms(1)
proof (induction envs arbitrary: k)
  case (Cons env envs)
  with PollInbound_quiet [OF assms(2), of "poll_wait env"] show ?case by (simp add: not_less)
qed (simp add: not_less)

text \<open>
  The demo ends. Without \<open>--persistent\<close>, when nothing arrives, \<open>Run\<close> returns after exactly 200 empty
  polls and leaves the endpoint unchanged; with or without it, \<open>Run\<close> returns at the poll that delivers
  SHUTDOWN, without touching the registers.
\<close>

theorem run_terminates:
  "((\<forall>env\<in>set envs. concat (poll_wait env) = []) \<and> queue (inbound_queue (server ep)) = []
      \<longrightarrow> Run False envs ep = Some (200 \<le> length envs, ep)) \<and>
   (queue (inbound_queue (server ep)) = m # ms \<and> Type (header m) = kShutdown
      \<longrightarrow> (\<exists>ep'. Run persistent (env # envs) ep = Some (True, ep') \<and> same_regs ep ep'))"
  using Run_loop_quiet [of envs ep 0] PollInbound_ready [of "server ep" m ms "poll_wait env"]
  by (auto simp: Run_def Let_def same_regs_def)

theorem run_terminates_witness:
  "Run False (replicate 200 quiet_env) (sample_endpoint []) = Some (True, sample_endpoint [])"
  using run_terminates [of "replicate 200 quiet_env" "sample_endpoint []" "sample_msg kShutdown 1 []" "[]" False quiet_env]
  by (simp add: new_BlockingQueue_def)

end
