(* ===== verification/Host_Client.thy ===== *)
theory Host_Client
  imports Server Logger
begin

text \<open>
  The host-side client (\<open>mini-ics/src/host_client.cpp\<close>): the guest-memory substitute with its bounds
  checks, the request/response exchange, the steps of the demo (handshake, reset, queue configuration,
  enable, doorbell), and the service of the device's DMA and interrupt messages.

  Memory is its size and the function from offsets to bytes. An operation of the client maps its state to
  a result and a new state, \<open>None\<close> while it is blocked in a system call. Log texts are left out, but every
  \<open>Log\<close> call advances the host clock as in the code.
\<close>

unbundle bit_operations_syntax

section \<open>Guest memory\<close>

record HostMemory =
  mem_size :: nat
  mem_data :: "nat \<Rightarrow> u8"

definition new_HostMemory :: "nat \<Rightarrow> HostMemory" where
  "new_HostMemory size_bytes = \<lparr> mem_size = size_bytes, mem_data = (\<lambda>_. 0) \<rparr>"

definition InitDeterministicPattern :: "HostMemory \<Rightarrow> HostMemory" where
  "InitDeterministicPattern m =
     m\<lparr> mem_data := (\<lambda>i. if i < mem_size m then ucast (drop_bit 24 (of_nat i * 2654435761 :: u64)) else mem_data m i) \<rparr>"

definition InBoundsLocked :: "u64 \<Rightarrow> nat \<Rightarrow> HostMemory \<Rightarrow> bool" where
  "InBoundsLocked addr len m =
     (if len = 0 then True
      else if unat addr \<ge> mem_size m then False
      else
        let end_addr = addr + of_nat len :: u64
        in if end_addr < addr then False else unat end_addr \<le> mem_size m)"

definition Memory_Write :: "u64 \<Rightarrow> bytes \<Rightarrow> HostMemory \<Rightarrow> bool \<times> HostMemory" where
  "Memory_Write addr src m =
     (if \<not> InBoundsLocked addr (length src) m then (False, m)
      else (True, m\<lparr> mem_data := (\<lambda>i. if unat addr \<le> i \<and> i < unat addr + length src
                                    then src ! (i - unat addr) else mem_data m i) \<rparr>))"

definition Memory_Read :: "u64 \<Rightarrow> nat \<Rightarrow> HostMemory \<Rightarrow> bytes option" where
  "Memory_Read addr len m =
     (if \<not> InBoundsLocked addr len m then None
      else Some (map (mem_data m) [unat addr..<unat addr + len]))"

definition hex_line :: "u64 \<Rightarrow> nat \<Rightarrow> nat \<Rightarrow> HostMemory \<Rightarrow> string" where
  "hex_line addr off chunk m =
     ''  '' @ pad_zero 8 (hex_string (unat (addr + of_nat off))) @ '': '' @
     concat (map (\<lambda>i. pad_zero 2 (hex_string (unat (mem_data m (unat addr + off + i)))) @ '' '') [0..<chunk]) @ [CHR 0x0A]"

function HexDump_loop :: "u64 \<Rightarrow> nat \<Rightarrow> nat \<Rightarrow> HostMemory \<Rightarrow> string" where
  "HexDump_loop addr len off m =
     (if off < len then hex_line addr off (min 16 (len - off)) m @ HexDump_loop addr len (off + 16) m else [])"
  by pat_completeness auto
termination by (relation "measure (\<lambda>(_, len, off, _). len - off)") auto

declare HexDump_loop.simps [simp del]

definition HexDump :: "u64 \<Rightarrow> nat \<Rightarrow> HostMemory \<Rightarrow> string" where
  "HexDump addr len m =
     (if \<not> InBoundsLocked addr len m then ''<out-of-bounds hex dump request>'' else HexDump_loop addr len 0 m)"

section \<open>The client's state\<close>

record HostClient =
  client_path :: string
  timeout_ms :: int
  socket :: UnixSocket
  memory :: HostMemory
  clock_ns :: u64
  client_txn :: TransactionIdGenerator
  mock_command :: bytes

definition new_HostClient :: "string \<Rightarrow> int \<Rightarrow> HostClient" where
  "new_HostClient path tmo =
     \<lparr> client_path = path, timeout_ms = tmo, socket = no_socket,
       memory = InitDeterministicPattern (new_HostMemory (64 * 1024 * 1024)), clock_ns = 100,
       client_txn = new_TransactionIdGenerator 1, mock_command = [] \<rparr>"

definition NowNs :: "HostClient \<Rightarrow> u64 \<times> HostClient" where
  "NowNs c = (clock_ns c, c\<lparr> clock_ns := clock_ns c + 5 \<rparr>)"

definition host_log :: "HostClient \<Rightarrow> HostClient" where
  "host_log c = snd (NowNs c)"

type_synonym 'a host = "HostClient \<Rightarrow> ('a \<times> HostClient) option"

definition and_then :: "bool host \<Rightarrow> bool host \<Rightarrow> bool host" where
  "and_then f g c = (case f c of None \<Rightarrow> None | Some (ok, c) \<Rightarrow> if ok then g c else Some (False, c))"

section \<open>Connecting\<close>

text \<open>
  Each attempt of \<open>Connect\<close> is given by the outcomes of its system calls and by whether the deadline has
  passed after it.
\<close>

record connect_attempt =
  attempt_conn :: UnixSocket
  attempt_rc :: "errno option"
  attempt_so_ok :: bool
  attempt_expired :: bool

fun Connect :: "connect_attempt list \<Rightarrow> HostClient \<Rightarrow> os \<Rightarrow> (bool \<times> HostClient \<times> os) option" where
  "Connect [] c w = None"
| "Connect (a # as) c w =
     (case ConnectUnixSocket (attempt_conn a) (attempt_rc a) (attempt_so_ok a) (client_path c) w of
        None \<Rightarrow> None
      | Some (st, out, w) \<Rightarrow>
          let c = (case out of None \<Rightarrow> c | Some s \<Rightarrow> c\<lparr> socket := s \<rparr>)
          in if st = IoOk then Some (True, host_log c, w)
             else if attempt_expired a then Some (False, host_log c, w)
             else Connect as c w)"

section \<open>Requests\<close>

definition ReadMessage :: "Message option host" where
  "ReadMessage c =
     (case recv_message (socket c) of
        None \<Rightarrow> None
      | Some (Received m, s) \<Rightarrow> Some (Some m, c\<lparr> socket := s \<rparr>)
      | Some (_, s) \<Rightarrow> Some (None, host_log (c\<lparr> socket := s \<rparr>)))"

definition SendRequestAndWait :: "MessageType \<Rightarrow> u64 \<Rightarrow> u64 \<Rightarrow> bytes \<Rightarrow> Message option host" where
  "SendRequestAndWait ty addr be pl c =
     (let (txn, g) = Next (client_txn c);
          c = c\<lparr> client_txn := g \<rparr>;
          (ts, c) = NowNs c;
          hdr = MakeHeader ty txn addr be kSuccess ts (of_nat (length pl)) kFlagNone 0
      in case SendAll (SerializeMessage hdr pl) (socket c) of
           None \<Rightarrow> None
         | Some (st, s) \<Rightarrow>
             let c = c\<lparr> socket := s \<rparr>
             in if st \<noteq> IoOk then Some (None, host_log c) else ReadMessage c)"

definition DoHello :: "bool host" where
  "DoHello c =
     (case SendRequestAndWait kHello 0 0 [] c of
        None \<Rightarrow> None
      | Some (rsp, c) \<Rightarrow>
          Some (case rsp of None \<Rightarrow> False | Some m \<Rightarrow> Type (header m) = kHelloAck, host_log c))"

definition DoReset :: "bool host" where
  "DoReset c =
     (case SendRequestAndWait kResetReq 0 0 [] c of
        None \<Rightarrow> None
      | Some (rsp, c) \<Rightarrow>
          Some (case rsp of None \<Rightarrow> False
                | Some m \<Rightarrow> Type (header m) = kResetRsp \<and> Status (header m) = kSuccess, host_log c))"

definition Client_EncodeU32 :: "u32 \<Rightarrow> bytes" where
  "Client_EncodeU32 v = [ucast v, ucast (drop_bit 8 v), ucast (drop_bit 16 v), ucast (drop_bit 24 v)]"

definition Client_EncodeU64 :: "u64 \<Rightarrow> bytes" where
  "Client_EncodeU64 v = map (\<lambda>i. ucast (drop_bit (8 * i) v)) [0..<8]"

definition mmio_write :: "u64 \<Rightarrow> u64 \<Rightarrow> bytes \<Rightarrow> bool host" where
  "mmio_write addr be pl c =
     (case SendRequestAndWait kMmioWriteReq addr be pl c of
        None \<Rightarrow> None
      | Some (rsp, c) \<Rightarrow>
          let c = host_log c;
              ok = (case rsp of None \<Rightarrow> False
                    | Some m \<Rightarrow> Type (header m) = kMmioWriteRsp \<and> Status (header m) = kSuccess)
          in Some (ok, if ok then c else host_log c))"

definition MmioWrite32 :: "u64 \<Rightarrow> u32 \<Rightarrow> bool host" where
  "MmioWrite32 addr v = mmio_write addr 0xF (Client_EncodeU32 v)"

definition MmioWrite64 :: "u64 \<Rightarrow> u64 \<Rightarrow> bool host" where
  "MmioWrite64 addr v = mmio_write addr 0xFF (Client_EncodeU64 v)"

definition MmioRead32 :: "u64 \<Rightarrow> u32 option host" where
  "MmioRead32 addr c =
     (case SendRequestAndWait kMmioReadReq addr 0xF [] c of
        None \<Rightarrow> None
      | Some (rsp, c) \<Rightarrow>
          Some (case rsp of
                  None \<Rightarrow> None
                | Some m \<Rightarrow>
                    if Type (header m) \<noteq> kMmioReadRsp \<or> Status (header m) \<noteq> kSuccess \<or> length (payload m) < 4
                    then None
                    else Some (ucast (payload m ! 0) OR push_bit 8 (ucast (payload m ! 1)) OR
                               push_bit 16 (ucast (payload m ! 2)) OR push_bit 24 (ucast (payload m ! 3))),
                host_log c))"

section \<open>The steps of the demo\<close>

definition kControllerConfiguration :: u64 where "kControllerConfiguration = 0x0014"
definition kControllerStatus :: u64 where "kControllerStatus = 0x001C"
definition kAdminQueueAttributes :: u64 where "kAdminQueueAttributes = 0x0024"
definition kAdminSubmissionQueueBase :: u64 where "kAdminSubmissionQueueBase = 0x0028"
definition kAdminCompletionQueueBase :: u64 where "kAdminCompletionQueueBase = 0x0030"
definition kSubmissionQueue0Doorbell :: u64 where "kSubmissionQueue0Doorbell = 0x1000"
definition kCcEnable :: u32 where "kCcEnable = 0x1"
definition kCstsReady :: u32 where "kCstsReady = 0x1"
definition kMockCommandGuestAddr :: u64 where "kMockCommandGuestAddr = 0x00200000"
definition kAsqBase :: u64 where "kAsqBase = 0x00100000"
definition kAcqBase :: u64 where "kAcqBase = 0x00101000"
definition kAqa :: u32 where "kAqa = push_bit 16 0x1F OR 0x1F"

definition ConfigureAdminQueues :: "bool host" where
  "ConfigureAdminQueues =
     and_then (MmioWrite64 kAdminSubmissionQueueBase kAsqBase)
       (and_then (MmioWrite64 kAdminCompletionQueueBase kAcqBase)
         (MmioWrite32 kAdminQueueAttributes kAqa))"

fun wait_ready :: "nat \<Rightarrow> bool host" where
  "wait_ready 0 c = Some (False, host_log c)"
| "wait_ready (Suc attempts) c =
     (case MmioRead32 kControllerStatus c of
        None \<Rightarrow> None
      | Some (v, c) \<Rightarrow>
          (case v of
             None \<Rightarrow> Some (False, c)
           | Some w \<Rightarrow> if w AND kCstsReady \<noteq> 0 then Some (True, host_log c) else wait_ready attempts c))"

definition EnableControllerAndWaitReady :: "bool host" where
  "EnableControllerAndWaitReady = and_then (MmioWrite32 kControllerConfiguration kCcEnable) (wait_ready 50)"

definition WriteMockNvmeCommand :: "bool host" where
  "WriteMockNvmeCommand c =
     (let c = c\<lparr> mock_command := map (\<lambda>i. of_nat (0xA0 + i)) [0..<64] \<rparr>;
          (ok, m) = Memory_Write kMockCommandGuestAddr (mock_command c) (memory c)
      in Some (ok, host_log (c\<lparr> memory := m \<rparr>)))"

definition RingDoorbell :: "bool host" where
  "RingDoorbell = MmioWrite32 kSubmissionQueue0Doorbell 1"

section \<open>Serving the device\<close>

definition SendDmaReadResponse :: "u64 \<Rightarrow> u64 \<Rightarrow> bytes \<Rightarrow> StatusCode \<Rightarrow> HostClient \<Rightarrow> HostClient option" where
  "SendDmaReadResponse txn addr data st c =
     (let (ts, c) = NowNs c;
          hdr = MakeHeader kDmaReadRsp txn addr 0 st ts (of_nat (length data)) kFlagIsResponse 0
      in map_option (\<lambda>(_, s). c\<lparr> socket := s \<rparr>) (SendAll (SerializeMessage hdr data) (socket c)))"

definition SendDmaWriteResponse :: "u64 \<Rightarrow> u64 \<Rightarrow> StatusCode \<Rightarrow> HostClient \<Rightarrow> HostClient option" where
  "SendDmaWriteResponse txn addr st c =
     (let (ts, c) = NowNs c;
          hdr = MakeHeader kDmaWriteRsp txn addr 0 st ts 0 kFlagIsResponse 0
      in map_option (\<lambda>(_, s). c\<lparr> socket := s \<rparr>) (SendAll (SerializeMessage hdr []) (socket c)))"

record seen =
  saw_dma_read :: bool
  saw_dma_write :: bool
  saw_msix :: bool
  completion_bytes :: bytes

definition all_seen :: "seen \<Rightarrow> bool" where
  "all_seen x \<longleftrightarrow> saw_dma_read x \<and> saw_dma_write x \<and> saw_msix x"

text \<open>One message of the device: whether the loop goes on, what has been seen, and the new state.\<close>

definition serve_dma_read :: "Message \<Rightarrow> seen \<Rightarrow> HostClient \<Rightarrow> (bool \<times> seen \<times> HostClient) option" where
  "serve_dma_read msg x c =
     (let x = x\<lparr> saw_dma_read := True \<rparr>;
          txn = txn_id (header msg);
          addr = address (header msg);
          len = transfer_len (header msg)
      in if len = 0
         then map_option (\<lambda>c. (False, x, c)) (SendDmaReadResponse txn addr [] kErrorBadLength c)
         else
           let c = host_log c
           in case Memory_Read addr (unat len) (memory c) of
                None \<Rightarrow> map_option (\<lambda>c. (False, x, host_log c)) (SendDmaReadResponse txn addr [] kErrorOutOfBounds c)
              | Some data \<Rightarrow> map_option (\<lambda>c. (True, x, host_log c)) (SendDmaReadResponse txn addr data kSuccess c))"

definition serve_dma_write :: "Message \<Rightarrow> seen \<Rightarrow> HostClient \<Rightarrow> (bool \<times> seen \<times> HostClient) option" where
  "serve_dma_write msg x c =
     (let x = x\<lparr> saw_dma_write := True \<rparr>;
          addr = address (header msg);
          c = host_log c;
          (ok, m) = Memory_Write addr (payload msg) (memory c);
          c = c\<lparr> memory := m \<rparr>;
          st = (if ok then kSuccess else kErrorOutOfBounds);
          x = (if ok then x\<lparr> completion_bytes := payload msg \<rparr> else x)
      in map_option (\<lambda>c. (st = kSuccess, x, host_log c)) (SendDmaWriteResponse (txn_id (header msg)) addr st c))"

definition serve_one :: "Message \<Rightarrow> seen \<Rightarrow> HostClient \<Rightarrow> (bool \<times> seen \<times> HostClient) option" where
  "serve_one msg x c =
     (case Type (header msg) of
        kDmaReadReq \<Rightarrow> serve_dma_read msg x c
      | kDmaWriteReq \<Rightarrow> serve_dma_write msg x c
      | kMsiX \<Rightarrow> Some (True, x\<lparr> saw_msix := True \<rparr>, host_log c)
      | _ \<Rightarrow> Some (True, x, host_log c))"

fun service_loop :: "nat \<Rightarrow> seen \<Rightarrow> HostClient \<Rightarrow> (bool \<times> seen \<times> HostClient) option" where
  "service_loop 0 x c = Some (True, x, c)"
| "service_loop (Suc n) x c =
     (if all_seen x then Some (True, x, c)
      else case ReadMessage c of
             None \<Rightarrow> None
           | Some (None, c) \<Rightarrow> Some (False, x, host_log c)
           | Some (Some msg, c) \<Rightarrow>
               (case serve_one msg x c of
                  None \<Rightarrow> None
                | Some (go_on, x, c) \<Rightarrow> if go_on then service_loop n x c else Some (False, x, c)))"

definition expected_completion :: bytes where
  "expected_completion = map (\<lambda>i. of_nat (0xC0 + i)) [0..<16]"

definition ServiceRtlInitiatedTransactions :: "bool host" where
  "ServiceRtlInitiatedTransactions c =
     (case service_loop 3 \<lparr> saw_dma_read = False, saw_dma_write = False, saw_msix = False, completion_bytes = [] \<rparr> c of
        None \<Rightarrow> None
      | Some (ok, x, c) \<Rightarrow>
          if \<not> ok then Some (False, c)
          else if \<not> all_seen x then Some (False, host_log c)
          else if length (completion_bytes x) \<noteq> 16 then Some (False, host_log c)
          else if list_all (\<lambda>i. completion_bytes x ! i = of_nat (0xC0 + i)) [0..<length (completion_bytes x)]
          then Some (True, host_log c)
          else Some (False, host_log c))"

definition SendShutdown :: "HostClient \<Rightarrow> HostClient option" where
  "SendShutdown c =
     (let (txn, g) = Next (client_txn c);
          (ts, c) = NowNs (c\<lparr> client_txn := g \<rparr>);
          hdr = MakeHeader kShutdown txn 0 0 kSuccess ts 0 kFlagNone 0
      in map_option (\<lambda>(_, s). host_log (c\<lparr> socket := s \<rparr>)) (SendAll (SerializeMessage hdr []) (socket c)))"

definition demo_steps :: "bool host" where
  "demo_steps =
     and_then DoHello (and_then DoReset (and_then ConfigureAdminQueues (and_then EnableControllerAndWaitReady
       (and_then WriteMockNvmeCommand (and_then RingDoorbell ServiceRtlInitiatedTransactions)))))"

definition RunDemo :: "connect_attempt list \<Rightarrow> HostClient \<Rightarrow> os \<Rightarrow> (bool \<times> HostClient \<times> os) option" where
  "RunDemo as c w =
     (case Connect as c w of
        None \<Rightarrow> None
      | Some (ok, c, w) \<Rightarrow>
          if \<not> ok then Some (False, c, w)
          else case demo_steps c of
                 None \<Rightarrow> None
               | Some (ok, c) \<Rightarrow>
                   if \<not> ok then Some (False, c, w)
                   else map_option (\<lambda>c. (True, c, w)) (SendShutdown (host_log c)))"

section \<open>The client program\<close>

text \<open>\<open>std::atoi\<close>: leading white space, an optional sign, then digits up to the first other character.\<close>

definition is_digit :: "char \<Rightarrow> bool" where
  "is_digit ch \<longleftrightarrow> 48 \<le> (of_char ch :: nat) \<and> of_char ch \<le> (57 :: nat)"

definition digits_value :: "string \<Rightarrow> int" where
  "digits_value s = foldl (\<lambda>v ch. 10 * v + (of_char ch - 48)) 0 (takeWhile is_digit s)"

definition atoi :: "string \<Rightarrow> int" where
  "atoi s =
     (case dropWhile is_space s of
        [] \<Rightarrow> 0
      | ch # cs \<Rightarrow> if ch = CHR ''-'' then - digits_value cs
                  else if ch = CHR ''+'' then digits_value cs
                  else digits_value (ch # cs))"

record client_options =
  copt_socket_path :: string
  copt_timeout_ms :: int
  copt_level :: LogLevel

definition default_client_options :: client_options where
  "default_client_options = \<lparr> copt_socket_path = ''/tmp/mini_ics.sock'', copt_timeout_ms = 5000, copt_level = LogInfo \<rparr>"

text \<open>\<open>None\<close> is the early return for \<open>--help\<close>.\<close>

fun parse_client_args :: "string list \<Rightarrow> client_options \<Rightarrow> client_options option" where
  "parse_client_args [] opts = Some opts"
| "parse_client_args (arg # rest) opts =
     (if arg = ''--socket'' \<and> rest \<noteq> [] then parse_client_args (tl rest) (opts\<lparr> copt_socket_path := hd rest \<rparr>)
      else if arg = ''--timeout-ms'' \<and> rest \<noteq> [] then parse_client_args (tl rest) (opts\<lparr> copt_timeout_ms := atoi (hd rest) \<rparr>)
      else if arg = ''--log-level'' \<and> rest \<noteq> []
      then parse_client_args (tl rest) (opts\<lparr> copt_level := LogLevelFromString (hd rest) \<rparr>)
      else if arg = ''--help'' then None
      else parse_client_args rest opts)"

definition client_main :: "string list \<Rightarrow> connect_attempt list \<Rightarrow> Logger \<Rightarrow> os \<Rightarrow> (int \<times> Logger \<times> os) option" where
  "client_main args as lg w =
     (case parse_client_args args default_client_options of
        None \<Rightarrow> Some (0, lg, w)
      | Some opts \<Rightarrow>
          map_option (\<lambda>(ok, _, w). (if ok then 0 else 1, SetLevel (copt_level opts) lg, w))
            (RunDemo as (new_HostClient (copt_socket_path opts) (copt_timeout_ms opts)) w))"

section \<open>Memory\<close>

text \<open>
  What a byte-addressed memory promises its clients: a write in bounds is read back, it does not change
  what is read elsewhere, and a write out of bounds changes nothing.
\<close>

locale byte_memory =
  fixes store :: "u64 \<Rightarrow> bytes \<Rightarrow> 'm \<Rightarrow> bool \<times> 'm" and load :: "u64 \<Rightarrow> nat \<Rightarrow> 'm \<Rightarrow> bytes option"
  assumes read_write_same: "store a bs m = (True, m') \<Longrightarrow> load a (length bs) m' = Some bs"
    and read_write_disjoint: "store a bs m = (ok, m') \<Longrightarrow> unat a + length bs \<le> unat b \<or> unat b + n \<le> unat a
      \<Longrightarrow> load b n m' = load b n m"
    and write_fails: "store a bs m = (False, m') \<Longrightarrow> m' = m"
begin

lemma write_write_disjoint:
  assumes "store a bs m = (True, m1)" "store b cs m1 = (ok, m2)"
    and "unat a + length bs \<le> unat b \<or> unat b + length cs \<le> unat a"
  shows "load a (length bs) m2 = Some bs"
  using read_write_same [OF assms(1)] read_write_disjoint [OF assms(2), of a "length bs"] assms(3) by auto

lemma write_unchanged: "store a bs m = (False, m') \<Longrightarrow> load b n m' = load b n m"
  using write_fails by blast

end

lemma InBounds_iff:
  assumes "mem_size m < 2 ^ 64" "len < 2 ^ 64"
  shows "InBoundsLocked addr len m \<longleftrightarrow> len = 0 \<or> unat addr + len \<le> mem_size m"
proof (cases "len = 0 \<or> mem_size m \<le> unat addr")
  case True
  then show ?thesis by (auto simp: InBoundsLocked_def)
next
  case False
  have n: "unat (of_nat len :: u64) = len" using assms(2) by (simp add: unat_of_nat)
  show ?thesis
  proof (cases "unat addr + len < 2 ^ 64")
    case True
    then have "unat (addr + of_nat len) = unat addr + len"
      using n by (simp add: unat_word_ariths)
    with False show ?thesis by (simp add: InBoundsLocked_def word_less_nat_alt)
  next
    case wrap: False
    then have "unat (addr + of_nat len) = unat addr + len - 2 ^ 64"
      using n assms(2) unsigned_less [of addr, where ?'a = nat] by (simp add: unat_word_ariths mod_if)
    then have "addr + of_nat len < addr"
      using assms(2) wrap by (simp add: word_less_nat_alt)
    with False wrap assms(1) show ?thesis by (simp add: InBoundsLocked_def)
  qed
qed

lemma InBounds_frame [simp]: "InBoundsLocked a n (m\<lparr>mem_data := d\<rparr>) = InBoundsLocked a n m"
  by (simp add: InBoundsLocked_def)

lemma Memory_read_write_same:
  "Memory_Write a bs m = (True, m') \<Longrightarrow> Memory_Read a (length bs) m' = Some bs"
  by (auto simp: Memory_Write_def Memory_Read_def intro!: nth_equalityI split: if_splits)

lemma Memory_read_write_disjoint:
  assumes "Memory_Write a bs m = (ok, m')" "unat a + length bs \<le> unat b \<or> unat b + n \<le> unat a"
  shows "Memory_Read b n m' = Memory_Read b n m"
  using assms by (auto simp: Memory_Write_def Memory_Read_def split: if_splits)

interpretation host_mem: byte_memory Memory_Write Memory_Read
  by unfold_locales
    (use Memory_read_write_same Memory_read_write_disjoint in \<open>auto simp: Memory_Write_def split: if_splits\<close>)

lemma Client_Encode_le_bytes: "Client_EncodeU32 v = le_bytes 4 v" "Client_EncodeU64 w = le_bytes 8 w"
  by (simp_all add: Client_EncodeU32_def Client_EncodeU64_def le_bytes_def byte_of_def upt_conv_Cons)

section \<open>Exchanges on a cooperative connection\<close>

lemma host_log_simps [simp]:
  "socket (host_log c) = socket c" "memory (host_log c) = memory c" "client_txn (host_log c) = client_txn c"
  "mock_command (host_log c) = mock_command c" "clock_ns (host_log c) = clock_ns c + 5"
  by (simp_all add: host_log_def NowNs_def)

lemma host_log_update [simp]: "host_log (c\<lparr>socket := s\<rparr>) = (host_log c)\<lparr>socket := s\<rparr>"
  by (simp add: host_log_def NowNs_def)

lemma ReadMessage_cooperative:
  assumes "valid_message m" "rx (socket c) = wire m @ rest" "cooperative (64 + length (payload m) + n) k (socket c)"
  shows "\<exists>s. ReadMessage c = Some (Some m, c\<lparr>socket := s\<rparr>) \<and> rx s = rest \<and> tx s = tx (socket c) \<and> cooperative n k s"
  using recv_message_cooperative [OF assms] by (auto simp: ReadMessage_def)

lemma ReadMessage_sound:
  assumes "ReadMessage c = Some (Some m, c')"
  shows "valid_message m \<and> rx (socket c) = wire m @ rx (socket c')"
  using assms recv_message_Received
  by (fastforce simp: ReadMessage_def split: option.splits recv_outcome.splits)

text \<open>The bytes of a request of this client.\<close>

definition client_request :: "MessageType \<Rightarrow> u64 \<Rightarrow> u64 \<Rightarrow> bytes \<Rightarrow> HostClient \<Rightarrow> bytes" where
  "client_request ty addr be pl c = SerializeMessage
     (MakeHeader ty (next_id (client_txn c)) addr be kSuccess (clock_ns c) (of_nat (length pl)) kFlagNone 0) pl"

lemma SendRequestAndWait_cooperative:
  assumes "valid_message m" "rx (socket c) = wire m @ rest"
    and "cooperative (64 + length (payload m) + n) (64 + length pl + k) (socket c)"
  shows "\<exists>s. SendRequestAndWait ty addr be pl c =
      Some (Some m, c\<lparr>client_txn := \<lparr>next_id = next_id (client_txn c) + 1\<rparr>, clock_ns := clock_ns c + 5, socket := s\<rparr>) \<and>
    rx s = rest \<and> tx s = tx (socket c) @ client_request ty addr be pl c \<and> cooperative n k s"
proof -
  from SendAll_cooperative [OF assms(3), of "client_request ty addr be pl c"] obtain s1 where
    s1: "SendAll (client_request ty addr be pl c) (socket c) = Some (IoOk, s1)"
      "cooperative (64 + length (payload m) + n) k s1" "tx s1 = tx (socket c) @ client_request ty addr be pl c"
      "rx s1 = rx (socket c)"
    by (auto simp: client_request_def SerializeMessage_def)
  let ?c = "c\<lparr>client_txn := \<lparr>next_id = next_id (client_txn c) + 1\<rparr>, clock_ns := clock_ns c + 5, socket := s1\<rparr>"
  from ReadMessage_cooperative [OF assms(1), of ?c rest n k] assms(2) s1 obtain s2 where
    "ReadMessage ?c = Some (Some m, c\<lparr>client_txn := \<lparr>next_id = next_id (client_txn c) + 1\<rparr>, clock_ns := clock_ns c + 5, socket := s2\<rparr>)"
    "rx s2 = rest" "tx s2 = tx s1" "cooperative n k s2"
    by auto
  with s1 show ?thesis
    by (cases "client_txn c") (auto simp: SendRequestAndWait_def Next_def NowNs_def client_request_def Let_def)
qed

section \<open>Serving on a cooperative connection\<close>

definition dma_read_rsp :: "Message \<Rightarrow> u64 \<Rightarrow> StatusCode \<Rightarrow> bytes \<Rightarrow> bytes" where
  "dma_read_rsp r ts st data = SerializeMessage
     (MakeHeader kDmaReadRsp (txn_id (header r)) (address (header r)) 0 st ts (of_nat (length data)) kFlagIsResponse 0) data"

definition dma_write_rsp :: "Message \<Rightarrow> u64 \<Rightarrow> StatusCode \<Rightarrow> bytes" where
  "dma_write_rsp w ts st = SerializeMessage
     (MakeHeader kDmaWriteRsp (txn_id (header w)) (address (header w)) 0 st ts 0 kFlagIsResponse 0) []"

lemma length_dma_rsp [simp]:
  "length (dma_read_rsp r ts st data) = 64 + length data" "length (dma_write_rsp w ts st) = 64"
  by (simp_all add: dma_read_rsp_def dma_write_rsp_def SerializeMessage_def)

lemma length_Memory_Read: "Memory_Read a n m = Some data \<Longrightarrow> length data = n"
  by (auto simp: Memory_Read_def split: if_splits)

lemma serve_dma_read_ok:
  assumes "cooperative n (64 + length data + k) (socket c)" "transfer_len (header r) \<noteq> 0"
    and "Memory_Read (address (header r)) (unat (transfer_len (header r))) (memory c) = Some data"
  shows "\<exists>s. serve_dma_read r x c = Some (True, x\<lparr>saw_dma_read := True\<rparr>, c\<lparr>clock_ns := clock_ns c + 15, socket := s\<rparr>) \<and>
    rx s = rx (socket c) \<and> tx s = tx (socket c) @ dma_read_rsp r (clock_ns c + 5) kSuccess data \<and> cooperative n k s"
proof -
  from SendAll_cooperative [OF assms(1), of "dma_read_rsp r (clock_ns c + 5) kSuccess data"] obtain s where
    "SendAll (dma_read_rsp r (clock_ns c + 5) kSuccess data) (socket c) = Some (IoOk, s)" "cooperative n k s"
    "tx s = tx (socket c) @ dma_read_rsp r (clock_ns c + 5) kSuccess data" "rx s = rx (socket c)"
    by auto
  with assms(2,3) show ?thesis
    by (intro exI [of _ s], cases c)
      (simp add: serve_dma_read_def SendDmaReadResponse_def dma_read_rsp_def NowNs_def host_log_def Let_def add.commute)
qed

lemma serve_dma_read_fails:
  assumes "cooperative n (64 + k) (socket c)" "transfer_len (header r) \<noteq> 0"
    and "Memory_Read (address (header r)) (unat (transfer_len (header r))) (memory c) = None"
  shows "\<exists>s. serve_dma_read r x c = Some (False, x\<lparr>saw_dma_read := True\<rparr>, c\<lparr>clock_ns := clock_ns c + 15, socket := s\<rparr>) \<and>
    rx s = rx (socket c) \<and> tx s = tx (socket c) @ dma_read_rsp r (clock_ns c + 5) kErrorOutOfBounds [] \<and> cooperative n k s"
proof -
  from SendAll_cooperative [OF assms(1), of "dma_read_rsp r (clock_ns c + 5) kErrorOutOfBounds []"] obtain s where
    "SendAll (dma_read_rsp r (clock_ns c + 5) kErrorOutOfBounds []) (socket c) = Some (IoOk, s)" "cooperative n k s"
    "tx s = tx (socket c) @ dma_read_rsp r (clock_ns c + 5) kErrorOutOfBounds []" "rx s = rx (socket c)"
    by auto
  with assms(2,3) show ?thesis
    by (intro exI [of _ s], cases c)
      (simp add: serve_dma_read_def SendDmaReadResponse_def dma_read_rsp_def NowNs_def host_log_def Let_def add.commute)
qed

lemma serve_dma_write_any:
  assumes "cooperative n (64 + k) (socket c)" "Memory_Write (address (header w)) (payload w) (memory c) = (ok, m)"
  shows "\<exists>s. serve_dma_write w x c =
      Some (ok, if ok then x\<lparr>saw_dma_write := True, completion_bytes := payload w\<rparr> else x\<lparr>saw_dma_write := True\<rparr>,
        c\<lparr>memory := m, clock_ns := clock_ns c + 15, socket := s\<rparr>) \<and>
    rx s = rx (socket c) \<and> cooperative n k s \<and>
    tx s = tx (socket c) @ dma_write_rsp w (clock_ns c + 5) (if ok then kSuccess else kErrorOutOfBounds)"
proof -
  let ?rsp = "dma_write_rsp w (clock_ns c + 5) (if ok then kSuccess else kErrorOutOfBounds)"
  from SendAll_cooperative [OF assms(1), of ?rsp] obtain s where
    "SendAll ?rsp (socket c) = Some (IoOk, s)" "cooperative n k s" "tx s = tx (socket c) @ ?rsp" "rx s = rx (socket c)"
    by auto
  with assms(2) show ?thesis
    by (intro exI [of _ s], cases c)
      (simp add: serve_dma_write_def SendDmaWriteResponse_def dma_write_rsp_def NowNs_def host_log_def Let_def add.commute)
qed

lemma service_loop_step:
  assumes "\<not> all_seen x" "valid_message m" "rx (socket c) = wire m @ rest"
    and "cooperative (64 + length (payload m) + n) k (socket c)"
  shows "\<exists>s. service_loop (Suc i) x c =
      (case serve_one m x (c\<lparr>socket := s\<rparr>) of None \<Rightarrow> None
       | Some (go_on, x, c) \<Rightarrow> if go_on then service_loop i x c else Some (False, x, c)) \<and>
    rx s = rest \<and> tx s = tx (socket c) \<and> cooperative n k s"
proof -
  from ReadMessage_cooperative [OF assms(2-4)] obtain s where
    "ReadMessage c = Some (Some m, c\<lparr>socket := s\<rparr>)" "rx s = rest" "tx s = tx (socket c)" "cooperative n k s"
    by blast
  with assms(1) show ?thesis by (intro exI [of _ s]) simp
qed

lemma length_expected [simp]: "length expected_completion = 16"
  by (simp add: expected_completion_def)

lemma expected_completion_nth: "list_all (\<lambda>i. expected_completion ! i = of_nat (0xC0 + i)) [0..<16]"
  by (simp add: expected_completion_def list_all_iff)

text \<open>The messages of a complete device sequence as the host receives them.\<close>

definition device_sequence :: "Message \<Rightarrow> Message \<Rightarrow> Message \<Rightarrow> bool" where
  "device_sequence r w i \<longleftrightarrow> valid_message r \<and> valid_message w \<and> valid_message i \<and>
     Type (header r) = kDmaReadReq \<and> Type (header w) = kDmaWriteReq \<and> Type (header i) = kMsiX \<and>
     payload r = [] \<and> payload w = expected_completion \<and> payload i = []"

lemma ServiceRtl_sequence:
  assumes seq: "device_sequence r w i" and rx: "rx (socket c) = wire r @ wire w @ wire i @ rest"
    and len: "transfer_len (header r) \<noteq> 0"
    and data: "Memory_Read (address (header r)) (unat (transfer_len (header r))) (memory c) = Some data"
    and m: "Memory_Write (address (header w)) expected_completion (memory c) = (True, m)"
    and coop: "cooperative (208 + n) (128 + length data + k) (socket c)"
  shows "\<exists>s. ServiceRtlInitiatedTransactions c = Some (True, c\<lparr>memory := m, clock_ns := clock_ns c + 40, socket := s\<rparr>) \<and>
    rx s = rest \<and> cooperative n k s \<and>
    tx s = tx (socket c) @ dma_read_rsp r (clock_ns c + 5) kSuccess data @ dma_write_rsp w (clock_ns c + 20) kSuccess"
proof -
  let ?x0 = "\<lparr>saw_dma_read = False, saw_dma_write = False, saw_msix = False, completion_bytes = []\<rparr>"
  let ?x1 = "?x0\<lparr>saw_dma_read := True\<rparr>"
  let ?x2 = "?x1\<lparr>saw_dma_write := True, completion_bytes := expected_completion\<rparr>"
  have c0: "cooperative (64 + length (payload r) + (144 + n)) (64 + length data + (64 + k)) (socket c)"
    using coop seq by (simp add: device_sequence_def algebra_simps)
  from service_loop_step [OF _ _ rx c0, of ?x0 2] seq obtain s1 where
    l1: "service_loop 3 ?x0 c = (case serve_dma_read r ?x0 (c\<lparr>socket := s1\<rparr>) of None \<Rightarrow> None
       | Some (go_on, x, c) \<Rightarrow> if go_on then service_loop 2 x c else Some (False, x, c))"
    and s1: "rx s1 = wire w @ wire i @ rest" "tx s1 = tx (socket c)" "cooperative (144 + n) (64 + length data + (64 + k)) s1"
    by (auto simp: all_seen_def device_sequence_def serve_one_def eval_nat_numeral)
  from serve_dma_read_ok [of "144 + n" data "64 + k" "c\<lparr>socket := s1\<rparr>" r ?x0] s1 len data obtain s2 where
    r: "serve_dma_read r ?x0 (c\<lparr>socket := s1\<rparr>) = Some (True, ?x1, c\<lparr>clock_ns := clock_ns c + 15, socket := s2\<rparr>)"
    and s2: "rx s2 = wire w @ wire i @ rest" "tx s2 = tx (socket c) @ dma_read_rsp r (clock_ns c + 5) kSuccess data"
      "cooperative (144 + n) (64 + k) s2"
    by auto
  let ?c2 = "c\<lparr>clock_ns := clock_ns c + 15, socket := s2\<rparr>"
  have "cooperative (64 + length (payload w) + (64 + n)) (64 + k) (socket ?c2)"
    using s2(3) seq by (simp add: device_sequence_def)
  from service_loop_step [OF _ _ _ this, of ?x1 "wire i @ rest" 1] s2 seq obtain s3 where
    l2: "service_loop 2 ?x1 ?c2 = (case serve_dma_write w ?x1 (c\<lparr>clock_ns := clock_ns c + 15, socket := s3\<rparr>) of None \<Rightarrow> None
       | Some (go_on, x, c) \<Rightarrow> if go_on then service_loop 1 x c else Some (False, x, c))"
    and s3: "rx s3 = wire i @ rest" "tx s3 = tx s2" "cooperative (64 + n) (64 + k) s3"
    by (auto simp: all_seen_def device_sequence_def serve_one_def eval_nat_numeral)
  from serve_dma_write_any [of "64 + n" k "c\<lparr>clock_ns := clock_ns c + 15, socket := s3\<rparr>" w True m ?x1] s3 m seq obtain s4 where
    w: "serve_dma_write w ?x1 (c\<lparr>clock_ns := clock_ns c + 15, socket := s3\<rparr>) =
         Some (True, ?x2, c\<lparr>memory := m, clock_ns := clock_ns c + 30, socket := s4\<rparr>)"
    and s4: "rx s4 = wire i @ rest" "tx s4 = tx s2 @ dma_write_rsp w (clock_ns c + 20) kSuccess" "cooperative (64 + n) k s4"
    by (auto simp: device_sequence_def add.commute)
  let ?c4 = "c\<lparr>memory := m, clock_ns := clock_ns c + 30, socket := s4\<rparr>"
  have "cooperative (64 + length (payload i) + n) k (socket ?c4)" using s4(3) seq by (simp add: device_sequence_def)
  from service_loop_step [OF _ _ _ this, of ?x2 rest 0] s4 seq obtain s5 where
    l3: "service_loop 1 ?x2 ?c4 = Some (True, ?x2\<lparr>saw_msix := True\<rparr>, host_log (?c4\<lparr>socket := s5\<rparr>))"
    and s5: "rx s5 = rest" "tx s5 = tx s4" "cooperative n k s5"
    by (auto simp: all_seen_def device_sequence_def serve_one_def)
  have "service_loop 3 ?x0 c = Some (True, ?x2\<lparr>saw_msix := True\<rparr>, host_log (?c4\<lparr>socket := s5\<rparr>))"
    using l1 r l2 w l3 by simp
  then have "ServiceRtlInitiatedTransactions c = Some (True, c\<lparr>memory := m, clock_ns := clock_ns c + 40, socket := s5\<rparr>)"
    using expected_completion_nth
    by (cases c) (simp add: ServiceRtlInitiatedTransactions_def all_seen_def host_log_def NowNs_def add.commute)
  with s2(2) s4(2) s5 show ?thesis by (intro exI [of _ s5]) simp
qed

text \<open>A successful answer of more than 16 MiB, which the 64 MiB memory allows, is one that the peer's parser refuses.\<close>

lemma oversized_read_rejected:
  assumes "16 * 1024 * 1024 < length data" "length data < 2 ^ 32"
  shows "DeserializeHeader (dma_read_rsp r ts st data) = Inl kBadPayloadLength"
proof -
  have "kMaxPayloadSize < (of_nat (length data) :: u32)"
    using assms by (simp add: word_less_nat_alt unat_of_nat kMaxPayloadSize_def)
  moreover have "length (wire_layout h) = 64" for h by (metis SerializeHeader_layout length_SerializeHeader)
  ultimately show ?thesis
    by (simp add: dma_read_rsp_def SerializeMessage_def DeserializeHeader_def SerializeHeader_layout Get_append
        parse_layout Let_def kHeaderSize_def)
qed

section \<open>Properties of the host client\<close>

definition sample_client :: "bytes \<Rightarrow> HostClient" where
  "sample_client inb = (new_HostClient ''/tmp/mini_ics.sock'' 5000)\<lparr> socket := ideal_socket 1000 4 inb \<rparr>"

lemma sample_client_simps [simp]:
  "socket (sample_client inb) = ideal_socket 1000 4 inb" "clock_ns (sample_client inb) = 100"
  "memory (sample_client inb) = InitDeterministicPattern (new_HostMemory (64 * 1024 * 1024))"
  by (simp_all add: sample_client_def new_HostClient_def)

lemma pattern_size [simp]: "mem_size (InitDeterministicPattern (new_HostMemory n)) = n"
  by (simp add: InitDeterministicPattern_def new_HostMemory_def)

text \<open>
  C32: guest memory is bounds-checked and behaves like memory. For every 64-bit address, also where
  address plus length wraps around, a write is accepted exactly when it is empty or ends inside the
  memory; an accepted write is read back, a rejected one changes nothing, and no write changes what is
  read at addresses it does not overlap.
\<close>

theorem memory_contract:
  assumes "mem_size m < 2 ^ 64" "length src < 2 ^ 64"
  shows "fst (Memory_Write addr src m) = (src = [] \<or> unat addr + length src \<le> mem_size m) \<and>
    (if fst (Memory_Write addr src m)
     then Memory_Read addr (length src) (snd (Memory_Write addr src m)) = Some src
     else snd (Memory_Write addr src m) = m) \<and>
    (unat addr + length src \<le> unat b \<or> unat b + n \<le> unat addr
       \<longrightarrow> Memory_Read b n (snd (Memory_Write addr src m)) = Memory_Read b n m)"
proof -
  obtain ok m' where w: "Memory_Write addr src m = (ok, m')" by fastforce
  have "ok = InBoundsLocked addr (length src) m" using w by (auto simp: Memory_Write_def split: if_splits)
  with InBounds_iff [OF assms, of addr] have "ok = (src = [] \<or> unat addr + length src \<le> mem_size m)" by simp
  moreover have "if ok then Memory_Read addr (length src) m' = Some src else m' = m"
    using w host_mem.read_write_same host_mem.write_fails by (cases ok) auto
  moreover have "unat addr + length src \<le> unat b \<or> unat b + n \<le> unat addr \<Longrightarrow> Memory_Read b n m' = Memory_Read b n m"
    by (rule host_mem.read_write_disjoint [OF w])
  ultimately show ?thesis using w by simp
qed

theorem memory_contract_witness:
  "fst (Memory_Write 0x3FFFFFF [7] (new_HostMemory (64 * 1024 * 1024))) \<and>
   \<not> fst (Memory_Write 0xFFFFFFFFFFFFFFFF [7, 8] (new_HostMemory (64 * 1024 * 1024)))"
  using memory_contract [of "new_HostMemory (64 * 1024 * 1024)" "[7]" "0x3FFFFFF" 0 0]
    memory_contract [of "new_HostMemory (64 * 1024 * 1024)" "[7, 8]" "0xFFFFFFFFFFFFFFFF" 0 0]
  by (simp add: new_HostMemory_def)

lemma service_sequence:
  assumes "device_sequence r w i" "rx (socket c) = wire r @ wire w @ wire i @ rest"
    and "transfer_len (header r) \<noteq> 0"
    and "Memory_Read (address (header r)) (unat (transfer_len (header r))) (memory c) = Some data"
    and "InBoundsLocked (address (header w)) 16 (memory c)"
    and "cooperative (208 + n) (128 + length data + k) (socket c)"
  shows "\<exists>c'. ServiceRtlInitiatedTransactions c = Some (True, c') \<and> rx (socket c') = rest \<and>
    tx (socket c') = tx (socket c) @ dma_read_rsp r (clock_ns c + 5) kSuccess data @ dma_write_rsp w (clock_ns c + 20) kSuccess \<and>
    Memory_Read (address (header w)) 16 (memory c') = Some expected_completion"
proof -
  obtain m where m: "Memory_Write (address (header w)) expected_completion (memory c) = (True, m)"
    using assms(5) by (simp add: Memory_Write_def)
  from ServiceRtl_sequence [OF assms(1-4) m assms(6)] host_mem.read_write_same [OF m] show ?thesis by auto
qed

text \<open>
  The device's sequence is served completely. When the device sends a DMA read inside the memory, a
  DMA write of the expected completion inside the memory, and an MSI-X, the client answers each DMA request
  once, with its transaction id and success, the read with the bytes of the memory, and reports success;
  afterwards the memory holds the completion at the address of the write.
\<close>

theorem device_sequence_served:
  assumes "device_sequence r w i" "rx (socket c) = wire r @ wire w @ wire i @ rest"
    and "transfer_len (header r) \<noteq> 0"
    and "Memory_Read (address (header r)) (unat (transfer_len (header r))) (memory c) = Some data"
    and "InBoundsLocked (address (header w)) 16 (memory c)"
    and "cooperative (208 + n) (128 + length data + k) (socket c)"
  shows "\<exists>c'. ServiceRtlInitiatedTransactions c = Some (True, c') \<and> rx (socket c') = rest \<and>
    tx (socket c') = tx (socket c) @ dma_read_rsp r (clock_ns c + 5) kSuccess data @ dma_write_rsp w (clock_ns c + 20) kSuccess \<and>
    Memory_Read (address (header w)) 16 (memory c') = Some expected_completion"
  using service_sequence [OF assms] .

definition device_msg :: "MessageType \<Rightarrow> u64 \<Rightarrow> u64 \<Rightarrow> u32 \<Rightarrow> bytes \<Rightarrow> Message" where
  "device_msg ty t ad xl pl = \<lparr> header = MakeHeader ty t ad 0 kSuccess 160 (of_nat (length pl)) kFlagNone xl, payload = pl \<rparr>"

lemma device_msg_simps [simp]:
  "ty \<notin> range OtherMessageType \<Longrightarrow> Type (header (device_msg ty t ad xl pl)) = ty"
  "txn_id (header (device_msg ty t ad xl pl)) = t" "address (header (device_msg ty t ad xl pl)) = ad"
  "payload (device_msg ty t ad xl pl) = pl" "xl \<noteq> 0 \<Longrightarrow> transfer_len (header (device_msg ty t ad xl pl)) = xl"
  by (simp_all add: device_msg_def transfer_len_MakeHeader)

lemma device_msg_valid [simp]: "length pl \<le> 16 \<Longrightarrow> valid_message (device_msg ty t ad xl pl)"
  using payload_fits [of pl] by (simp add: device_msg_def valid_message_def)

theorem device_sequence_served_witness:
  "\<exists>c'. ServiceRtlInitiatedTransactions (sample_client
       (wire (device_msg kDmaReadReq 1 0x100000 64 []) @ wire (device_msg kDmaWriteReq 2 0x101000 16 expected_completion) @
        wire (device_msg kMsiX 3 0 0 [])))
     = Some (True, c') \<and> Memory_Read 0x101000 16 (memory c') = Some expected_completion"
proof -
  let ?r = "device_msg kDmaReadReq 1 0x100000 64 []" and ?w = "device_msg kDmaWriteReq 2 0x101000 16 expected_completion"
    and ?i = "device_msg kMsiX 3 0 0 []" and ?m = "InitDeterministicPattern (new_HostMemory (64 * 1024 * 1024))"
  let ?c = "sample_client (wire ?r @ wire ?w @ wire ?i @ [])"
  have b: "InBoundsLocked 0x100000 64 ?m" "InBoundsLocked 0x101000 16 ?m"
    by (simp_all add: InBounds_iff)
  then obtain data where d: "Memory_Read 0x100000 64 ?m = Some data" by (simp add: Memory_Read_def)
  have "device_sequence ?r ?w ?i" by (simp add: device_sequence_def image_iff)
  from device_sequence_served [OF this, of ?c "[]" data 0 0] d b length_Memory_Read [OF d] show ?thesis
    by (auto simp: ideal_socket_cooperative)
qed

text \<open>
  The host accepts a response that answers another request. A write that is answered by a successful
  write response is reported as done whatever transaction id the response carries: the id is not compared
  with that of the request.
\<close>

theorem response_id_not_checked:
  assumes "valid_message m" "Type (header m) = kMmioWriteRsp" "Status (header m) = kSuccess"
    and "rx (socket c) = wire m @ rest" "cooperative (64 + length (payload m) + n) (68 + k) (socket c)"
  shows "\<exists>c'. MmioWrite32 addr v c = Some (True, c') \<and> rx (socket c') = rest \<and>
    tx (socket c') = tx (socket c) @ client_request kMmioWriteReq addr 0xF (le_bytes 4 v) c"
proof -
  have "cooperative (64 + length (payload m) + n) (64 + length (le_bytes 4 v) + k) (socket c)" using assms(5) by simp
  from SendRequestAndWait_cooperative [OF assms(1,4) this, of kMmioWriteReq addr "0xF"] assms(2,3) show ?thesis
    by (auto simp: MmioWrite32_def mmio_write_def Client_Encode_le_bytes Let_def)
qed

theorem response_id_not_checked_witness:
  "\<exists>c'. client_txn (sample_client []) = \<lparr>next_id = 1\<rparr> \<and>
     MmioWrite32 0x14 1 (sample_client (wire (device_msg kMmioWriteRsp 77 0x14 0 []))) = Some (True, c')"
  using response_id_not_checked [of "device_msg kMmioWriteRsp 77 0x14 0 []"
      "sample_client (wire (device_msg kMmioWriteRsp 77 0x14 0 []))" "[]" 0 0 "0x14" 1]
  by (auto simp: ideal_socket_cooperative image_iff device_msg_def sample_client_def new_HostClient_def
      new_TransactionIdGenerator_def valid_message_def)

text \<open>
  The mock command is not what the device fetches. The client configures the submission queue at
  \<open>kAsqBase\<close>, which is where the doorbell makes the device read, but stores the command at
  \<open>kMockCommandGuestAddr\<close>: after the demo's memory set-up a 64-byte DMA read of the submission queue
  succeeds and returns bytes that differ from the command.
\<close>

theorem command_not_at_submission_queue:
  "\<exists>c' data. WriteMockNvmeCommand (new_HostClient path tmo) = Some (True, c') \<and>
     Memory_Read kMockCommandGuestAddr 64 (memory c') = Some (mock_command c') \<and>
     Memory_Read kAsqBase 64 (memory c') = Some data \<and> data \<noteq> mock_command c'"
proof -
  let ?m = "InitDeterministicPattern (new_HostMemory (64 * 1024 * 1024))"
  let ?cmd = "map (\<lambda>i. of_nat (0xA0 + i)) [0..<64] :: bytes"
  have len: "length ?cmd = 64" by simp
  have b: "InBoundsLocked kMockCommandGuestAddr 64 ?m" "InBoundsLocked kAsqBase 64 ?m"
    by (simp_all add: InBounds_iff kMockCommandGuestAddr_def kAsqBase_def)
  then obtain m' where w: "Memory_Write kMockCommandGuestAddr ?cmd ?m = (True, m')"
    by (simp add: Memory_Write_def)
  have same: "Memory_Read kAsqBase 64 m' = Memory_Read kAsqBase 64 ?m"
    by (rule host_mem.read_write_disjoint [OF w]) (simp add: kMockCommandGuestAddr_def kAsqBase_def)
  have first: "map (mem_data ?m) [unat kAsqBase..<unat kAsqBase + 64] ! 0 \<noteq> ?cmd ! 0"
    by (simp add: InitDeterministicPattern_def new_HostMemory_def kAsqBase_def)
  have "Memory_Read kAsqBase 64 ?m = Some (map (mem_data ?m) [unat kAsqBase..<unat kAsqBase + 64])"
    using b(2) by (simp add: Memory_Read_def)
  with first have data: "\<exists>data. Memory_Read kAsqBase 64 m' = Some data \<and> data \<noteq> ?cmd"
    unfolding same by metis
  have cmd: "Memory_Read kMockCommandGuestAddr 64 m' = Some ?cmd"
    using host_mem.read_write_same [OF w] unfolding len .
  obtain c' where "WriteMockNvmeCommand (new_HostClient path tmo) = Some (True, c')" "memory c' = m'" "mock_command c' = ?cmd"
    using w by (simp add: WriteMockNvmeCommand_def new_HostClient_def Let_def)
  with data cmd show ?thesis by metis
qed

end
