(* ===== verification/Dpi.thy ===== *)
theory Dpi
  imports Server
begin

text \<open>
  The DPI-C shim between the simulator and the server (\<open>mini-ics/dpi/mini_ics_dpi.cpp\<close>): a process-wide
  server, two staging buffers for payloads, and the imported functions with their return codes.

  A null pointer argument is an explicit flag. A SystemVerilog open array is what the simulator's access
  functions make of it: a pointer to contiguous storage, or a number of elements with a pointer each. The
  outcomes of system calls and the interference of the I/O thread are arguments, as in the server's model;
  a call that is still blocked in a send is \<open>None\<close>.
\<close>

section \<open>State\<close>

record Dpi =
  g_server :: "MiniIcsServer option"
  g_inbound_payload :: bytes
  g_response_payload :: bytes

definition new_Dpi :: Dpi where
  "new_Dpi = \<lparr> g_server = None, g_inbound_payload = [], g_response_payload = [] \<rparr>"

definition kDefaultRequestTimeoutMs :: int where "kDefaultRequestTimeoutMs = 2000"

section \<open>Starting and stopping\<close>

definition mini_ics_init ::
  "int \<Rightarrow> bool \<Rightarrow> bool \<Rightarrow> UnixListener \<Rightarrow> string option \<Rightarrow> Dpi \<Rightarrow> os \<Rightarrow> int \<times> Dpi \<times> os" where
  "mini_ics_init d bind_ok listen_ok l path_arg st w =
     (case g_server st of
        Some _ \<Rightarrow> (0, st, w)
      | None \<Rightarrow>
          (case path_arg of
             None \<Rightarrow> (-1, st, w)
           | Some path \<Rightarrow>
               (case Start d bind_ok listen_ok (new_MiniIcsServer path 50 kDefaultRequestTimeoutMs l) w of
                  (ok, srv, w) \<Rightarrow> if \<not> ok then (-1, st, w) else (0, st\<lparr> g_server := Some srv \<rparr>, w))))"

definition mini_ics_shutdown :: "bool \<Rightarrow> Dpi \<Rightarrow> os \<Rightarrow> (Dpi \<times> os) option" where
  "mini_ics_shutdown busy st w =
     (case g_server st of
        None \<Rightarrow> Some (st\<lparr> g_inbound_payload := [], g_response_payload := [] \<rparr>, w)
      | Some srv \<Rightarrow>
          map_option (\<lambda>(_, w). (st\<lparr> g_server := None, g_inbound_payload := [], g_response_payload := [] \<rparr>, w))
            (Stop busy srv w))"

text \<open>The server that a call may use: present and running.\<close>

definition live_server :: "Dpi \<Rightarrow> MiniIcsServer option" where
  "live_server st = (case g_server st of None \<Rightarrow> None | Some srv \<Rightarrow> if running srv then Some srv else None)"

section \<open>Inbound messages\<close>

record poll_out =
  out_msg_type :: u32
  out_transaction_id :: u64
  out_address :: u64
  out_length :: u32
  out_status :: u32

definition mini_ics_poll :: "bool \<Rightarrow> server_op list list \<Rightarrow> Dpi \<Rightarrow> int \<times> poll_out option \<times> Dpi" where
  "mini_ics_poll null_arg bs st =
     (if null_arg then (-1, None, st)
      else case live_server st of
             None \<Rightarrow> (-1, None, st)
           | Some srv \<Rightarrow>
               (case PollInbound bs srv of
                  (None, srv) \<Rightarrow> (0, None, st\<lparr> g_server := Some srv \<rparr>)
                | (Some msg, srv) \<Rightarrow>
                    (1, Some \<lparr> out_msg_type = ucast (msg_type (header msg)), out_transaction_id = txn_id (header msg),
                               out_address = address (header msg), out_length = transfer_len (header msg),
                               out_status = status (header msg) \<rparr>,
                     st\<lparr> g_server := Some srv, g_inbound_payload := payload msg \<rparr>)))"

definition staged_byte :: "bytes \<Rightarrow> bool \<Rightarrow> u32 \<Rightarrow> int \<times> u8 option" where
  "staged_byte buf null_arg index =
     (if null_arg then (-1, None)
      else if length buf \<le> unat index then (-1, None) else (0, Some (buf ! unat index)))"

definition mini_ics_get_payload_byte :: "bool \<Rightarrow> u32 \<Rightarrow> Dpi \<Rightarrow> int \<times> u8 option" where
  "mini_ics_get_payload_byte null_arg index st = staged_byte (g_inbound_payload st) null_arg index"

definition mini_ics_get_response_payload_byte :: "bool \<Rightarrow> u32 \<Rightarrow> Dpi \<Rightarrow> int \<times> u8 option" where
  "mini_ics_get_response_payload_byte null_arg index st = staged_byte (g_response_payload st) null_arg index"

section \<open>Outbound messages\<close>

datatype open_array = Contiguous "nat \<Rightarrow> u8" | Elements nat "nat \<Rightarrow> u8 option"

definition CopyOpenArray :: "open_array \<Rightarrow> u32 \<Rightarrow> bytes" where
  "CopyOpenArray handle len =
     (case handle of
        Contiguous data \<Rightarrow> map data [0..<unat len]
      | Elements count elem \<Rightarrow>
          map (\<lambda>i. if i < count then case elem i of None \<Rightarrow> 0 | Some b \<Rightarrow> b else 0) [0..<unat len])"

definition mini_ics_send_response ::
  "u32 \<Rightarrow> u64 \<Rightarrow> u64 \<Rightarrow> u32 \<Rightarrow> open_array option \<Rightarrow> u32 \<Rightarrow> Dpi \<Rightarrow> (int \<times> Dpi) option" where
  "mini_ics_send_response mtype txn addr st_code arr len st =
     (case live_server st of
        None \<Rightarrow> Some (-1, st)
      | Some srv \<Rightarrow>
          let data = (case arr of None \<Rightarrow> [] | Some a \<Rightarrow> if len > 0 then CopyOpenArray a len else []);
              hdr = MakeHeader (MessageType_of_u16 (ucast mtype)) txn addr 0 (StatusCode_of_u32 st_code) 0
                      (of_nat (length data)) kFlagIsResponse 0
          in map_option (\<lambda>(ok, srv). (if ok then 0 else -2, st\<lparr> g_server := Some srv \<rparr>)) (SendResponse hdr data srv))"

text \<open>The result carries what is stored through the two output pointers.\<close>

definition mini_ics_send_request ::
  "bool \<Rightarrow> u32 \<Rightarrow> u64 \<Rightarrow> open_array option \<Rightarrow> u32 \<Rightarrow> server_op list list \<Rightarrow> Dpi
     \<Rightarrow> (int \<times> (u64 \<times> u32) option \<times> Dpi) option" where
  "mini_ics_send_request null_arg mtype addr arr len bs st =
     (if null_arg then Some (-1, None, st)
      else case live_server st of
             None \<Rightarrow> Some (-1, None, st)
           | Some srv \<Rightarrow>
               let type = MessageType_of_u16 (ucast mtype);
                   data = (case arr of None \<Rightarrow> []
                           | Some a \<Rightarrow> if type \<noteq> kDmaReadReq \<and> len > 0 then CopyOpenArray a len else []);
                   expect_response = (type = kDmaReadReq \<or> type = kDmaWriteReq)
               in case SendRequestToHost type addr 0 data len 0 expect_response bs srv of
                    None \<Rightarrow> None
                  | Some (t, rsp, srv) \<Rightarrow>
                      let st = st\<lparr> g_server := Some srv \<rparr>;
                          txn = (case t of None \<Rightarrow> 0 | Some x \<Rightarrow> x)
                      in Some (if \<not> expect_response then (0, Some (txn, u32_of_StatusCode kSuccess), st)
                               else case rsp of
                                      None \<Rightarrow> (-3, Some (txn, u32_of_StatusCode kErrorTimeout), st)
                                    | Some m \<Rightarrow>
                                        (if Status (header m) = kSuccess then 0 else -2,
                                         Some (txn, status (header m)),
                                         st\<lparr> g_response_payload := payload m \<rparr>)))"

section \<open>Invariant\<close>

definition dpi_inv :: "Dpi \<Rightarrow> bool" where
  "dpi_inv st \<longleftrightarrow> (\<forall>srv. g_server st = Some srv \<longrightarrow> server_inv srv \<and> pending srv = Map.empty)"

lemma live_server_Some: "live_server st = Some srv \<longleftrightarrow> g_server st = Some srv \<and> running srv"
  by (auto simp: live_server_def split: option.splits)

lemma poll_inv:
  assumes "dpi_inv st" "mini_ics_poll b bs st = (r, x, st')"
  shows "dpi_inv st'"
proof (cases "b \<or> live_server st = None")
  case True
  with assms show ?thesis by (auto simp: mini_ics_poll_def split: if_splits)
next
  case False
  then obtain srv where l: "live_server st = Some srv" by blast
  then have inv: "server_inv srv" "pending srv = Map.empty" using assms(1) by (simp_all add: live_server_Some dpi_inv_def)
  obtain m srv' where p: "PollInbound bs srv = (m, srv')" by fastforce
  with PollInbound_inv [OF inv(1) p] inv(2) False l assms(2) show ?thesis
    by (auto simp: mini_ics_poll_def dpi_inv_def split: option.splits)
qed

lemma send_request_cases:
  assumes "mini_ics_send_request b ty ad arr len bs st = Some (r, x, st')"
  obtains (refused) "r = -1" "x = None" "st' = st"
  | (sent) srv t rsp srv' where "live_server st = Some srv"
      "SendRequestToHost (MessageType_of_u16 (ucast ty)) ad 0
         (case arr of None \<Rightarrow> [] | Some a \<Rightarrow> if MessageType_of_u16 (ucast ty) \<noteq> kDmaReadReq \<and> len > 0 then CopyOpenArray a len else [])
         len 0 (MessageType_of_u16 (ucast ty) = kDmaReadReq \<or> MessageType_of_u16 (ucast ty) = kDmaWriteReq) bs srv
         = Some (t, rsp, srv')"
      "g_server st' = Some srv'" "g_inbound_payload st' = g_inbound_payload st"
      "r = -2 \<or> r = 0 \<and> rsp \<noteq> None \<longrightarrow> (\<exists>m. rsp = Some m \<and> g_response_payload st' = payload m) \<or>
         \<not> (MessageType_of_u16 (ucast ty) = kDmaReadReq \<or> MessageType_of_u16 (ucast ty) = kDmaWriteReq)"
  using assms
  by (auto simp: mini_ics_send_request_def Let_def split: if_splits option.splits)

lemma send_request_inv:
  assumes "dpi_inv st" "mini_ics_send_request b ty ad arr len bs st = Some (r, x, st')"
  shows "dpi_inv st' \<and> g_inbound_payload st' = g_inbound_payload st"
  using assms(2)
proof (cases rule: send_request_cases)
  case refused
  with assms(1) show ?thesis by simp
next
  case (sent srv t rsp srv')
  from sent(1) assms(1) have "server_inv srv" "pending srv = Map.empty" by (simp_all add: live_server_Some dpi_inv_def)
  with SendRequestToHost_inv [OF _ sent(2)] sent(3,4) show ?thesis by (auto simp: dpi_inv_def)
qed

section \<open>Properties of the shim\<close>


definition sample_dpi :: "MiniIcsServer \<Rightarrow> Dpi" where
  "sample_dpi srv = new_Dpi\<lparr> g_server := Some srv \<rparr>"

lemma live_sample [simp]: "running srv \<Longrightarrow> live_server (sample_dpi srv) = Some srv"
  by (simp add: sample_dpi_def new_Dpi_def live_server_def)


text \<open>
  An MSI-X request is reported as sent when nothing was sent. Without a connected client
  \<open>mini_ics_send_request\<close> returns 0 and the success status for MSI-X, with the transaction id 0, and the
  server is unchanged.
\<close>

theorem msix_success_without_client:
  assumes "live_server st = Some srv" "\<not> has_client srv"
  shows "\<exists>st'. mini_ics_send_request False 11 ad arr len bs st = Some (0, Some (0, 0), st') \<and> g_server st' = Some srv"
  using assms
  by (auto simp: mini_ics_send_request_def SendRequestToHost_def MessageType_of_u16_def Let_def)

theorem msix_success_without_client_witness:
  "\<exists>st'. mini_ics_send_request False 11 0 None 0 [] (sample_dpi ((sample_server 0 [])\<lparr>has_client := False\<rparr>)) = Some (0, Some (0, 0), st')"
  using msix_success_without_client [of "sample_dpi ((sample_server 0 [])\<lparr>has_client := False\<rparr>)"
      "(sample_server 0 [])\<lparr>has_client := False\<rparr>" 0 None 0 "[]"]
  by auto

text \<open>
  \<open>mini_ics_poll\<close> does not report a lost client. With a running server whose client is gone and whose
  queue is empty, a poll during which nothing arrives returns 0, not \<open>-1\<close>.
\<close>

theorem poll_silent_after_disconnect:
  assumes "live_server st = Some srv" "\<not> has_client srv" "queue (inbound_queue srv) = []" "concat bs = []"
  shows "\<exists>st'. mini_ics_poll False bs st = (0, None, st') \<and> g_server st' = Some srv"
  using PollInbound_quiet [OF assms(3,4)] assms(1) by (simp add: mini_ics_poll_def)

theorem poll_silent_after_disconnect_witness:
  "\<exists>st'. mini_ics_poll False [] (sample_dpi ((sample_server 0 [])\<lparr>has_client := False\<rparr>)) = (0, None, st')"
  using poll_silent_after_disconnect [of "sample_dpi ((sample_server 0 [])\<lparr>has_client := False\<rparr>)"
      "(sample_server 0 [])\<lparr>has_client := False\<rparr>" "[]"]
  by (auto simp: new_BlockingQueue_def)

end
