(* ===== verification/Harness.thy ===== *)
theory Harness
  imports Server
begin

text \<open>
  The Verilator harness (\<open>rtl/alex/verilator_qemu_main.cpp\<close>): the clocked port protocol towards the
  simulated endpoint, PCIe completions for DMA reads, the descriptor ring of the generic DMA engine, and the
  main loop that serves MMIO requests.

  The simulated hardware is generated code: its \<open>eval\<close> is the parameter \<open>ev\<close> of every definition, a function
  on the ports and an internal state of any type. Port widths are those of the generated class. A result is
  \<open>Done\<close>, \<open>Blocked\<close> in a socket operation, or \<open>Undefined\<close> where the C++ code reads outside a vector or shifts
  by the width of its operand. The interference during a request to the host is a function of its transaction
  id. TLP logging and wave tracing are left out.
\<close>

unbundle bit_operations_syntax

section \<open>Outcomes\<close>

datatype 'a outcome = Done 'a | Blocked | Undefined

definition obind :: "'a outcome \<Rightarrow> ('a \<Rightarrow> 'b outcome) \<Rightarrow> 'b outcome" where
  "obind x f = (case x of Done a \<Rightarrow> f a | Blocked \<Rightarrow> Blocked | Undefined \<Rightarrow> Undefined)"

definition of_blocking :: "'a option \<Rightarrow> 'a outcome" where
  "of_blocking x = (case x of None \<Rightarrow> Blocked | Some a \<Rightarrow> Done a)"

lemma obind_simps [simp]:
  "obind (Done a) f = f a" "obind Blocked f = Blocked" "obind Undefined f = Undefined"
  by (simp_all add: obind_def)

lemma of_blocking_simps [simp]: "of_blocking None = Blocked" "of_blocking (Some a) = Done a"
  by (simp_all add: of_blocking_def)

lemma obind_Done: "obind x f = Done b \<longleftrightarrow> (\<exists>a. x = Done a \<and> f a = Done b)"
  by (cases x) simp_all

lemma of_blocking_Done [simp]: "of_blocking x = Done a \<longleftrightarrow> x = Some a"
  by (cases x) simp_all

section \<open>Ports of the simulated endpoint\<close>

record DescPorts =
  desc_valid :: bool
  desc_ready :: bool
  desc_pcie_addr :: u64
  desc_ram_addr :: u16
  desc_len :: u16
  desc_tag :: u8

record ReqPorts =
  req_valid :: bool
  req_ready :: bool
  req_addr :: u64
  req_len :: u16
  req_data :: "u64 list"

record CplPorts =
  cpl_valid :: bool
  cpl_sop :: bool
  cpl_eop :: bool
  cpl_error :: u8
  cpl_hdr_lo :: u64
  cpl_hdr_hi :: u64
  cpl_data :: "u64 list"

record StatusPorts =
  dma_status_valid :: bool
  dma_status_error :: u8

record MmioPorts =
  mmio_req_valid :: bool
  mmio_req_ready :: bool
  mmio_req_write :: bool
  mmio_req_addr :: u64
  mmio_req_len :: u8
  mmio_req_data :: u64
  mmio_rsp_valid :: bool
  mmio_rsp_data :: u64
  mmio_rsp_status :: u8

record 'v Top =
  clk :: bool
  rst :: bool
  mmio :: MmioPorts
  dma_read_desc :: DescPorts
  dma_write_desc :: DescPorts
  dma_rd_req :: ReqPorts
  dma_wr_req :: ReqPorts
  dma_rx_cpl :: CplPorts
  dma_read_status :: StatusPorts
  dma_write_status :: StatusPorts
  doorbell_pulse :: bool
  internals :: 'v

type_synonym 'v eval = "'v Top \<Rightarrow> 'v Top"

record 'v Harness =
  top :: "'v Top"
  sim_time :: u64
  doorbell_seen :: bool

definition new_Harness :: "'v Top \<Rightarrow> 'v Harness" where
  "new_Harness t = \<lparr> top = t, sim_time = 0, doorbell_seen = False \<rparr>"

section \<open>Clock and MMIO\<close>

definition Tick :: "'v eval \<Rightarrow> 'v Harness \<Rightarrow> 'v Harness" where
  "Tick ev h =
     (let t = ev ((top h)\<lparr> clk := False \<rparr>);
          t = ev (t\<lparr> clk := True \<rparr>);
          t = ev (t\<lparr> clk := False \<rparr>)
      in h\<lparr> top := t, sim_time := sim_time h + 1, doorbell_seen := doorbell_seen h \<or> doorbell_pulse t \<rparr>)"

fun tick_until :: "'v eval \<Rightarrow> ('v Top \<Rightarrow> bool) \<Rightarrow> nat \<Rightarrow> 'v Harness \<Rightarrow> 'v Harness" where
  "tick_until ev P 0 h = h"
| "tick_until ev P (Suc n) h = (if P (top h) then h else tick_until ev P n (Tick ev h))"

definition put_mmio :: "(MmioPorts \<Rightarrow> MmioPorts) \<Rightarrow> 'v Harness \<Rightarrow> 'v Harness" where
  "put_mmio f h = h\<lparr> top := (top h)\<lparr> mmio := f (mmio (top h)) \<rparr> \<rparr>"

definition Mmio :: "'v eval \<Rightarrow> bool \<Rightarrow> u64 \<Rightarrow> u32 \<Rightarrow> u64 \<Rightarrow> 'v Harness \<Rightarrow> (u64 \<times> u32) option \<times> 'v Harness" where
  "Mmio ev wr addr len data h =
     (let h = put_mmio (\<lambda>p. p\<lparr> mmio_req_write := wr, mmio_req_addr := addr, mmio_req_len := ucast len,
                               mmio_req_data := data, mmio_req_valid := False \<rparr>) h;
          h = tick_until ev (\<lambda>t. mmio_req_ready (mmio t)) 100 h
      in if \<not> mmio_req_ready (mmio (top h)) then (None, h)
         else
           let h = Tick ev (put_mmio (\<lambda>p. p\<lparr> mmio_req_valid := True \<rparr>) h);
               h = put_mmio (\<lambda>p. p\<lparr> mmio_req_valid := False \<rparr>) h;
               h = tick_until ev (\<lambda>t. mmio_rsp_valid (mmio t)) 200 h
           in if \<not> mmio_rsp_valid (mmio (top h)) then (None, h)
              else (Some (mmio_rsp_data (mmio (top h)), ucast (mmio_rsp_status (mmio (top h)))), Tick ev h))"

definition Reset :: "'v eval \<Rightarrow> 'v Harness \<Rightarrow> 'v Harness" where
  "Reset ev h =
     (let h = h\<lparr> top := (top h)\<lparr> rst := True \<rparr> \<rparr>;
          h = (Tick ev ^^ 4) h
      in h\<lparr> top := (top h)\<lparr> rst := False \<rparr> \<rparr>)"

definition idle_desc :: "DescPorts \<Rightarrow> DescPorts" where
  "idle_desc p = p\<lparr> desc_valid := False, desc_pcie_addr := 0, desc_ram_addr := 0, desc_len := 0, desc_tag := 0 \<rparr>"

definition InitDmaPorts :: "'v Harness \<Rightarrow> 'v Harness" where
  "InitDmaPorts h =
     (let t = top h
      in h\<lparr> top := t\<lparr> dma_read_desc := idle_desc (dma_read_desc t), dma_write_desc := idle_desc (dma_write_desc t),
              dma_rd_req := (dma_rd_req t)\<lparr> req_ready := True \<rparr>, dma_wr_req := (dma_wr_req t)\<lparr> req_ready := True \<rparr>,
              dma_rx_cpl := (dma_rx_cpl t)\<lparr> cpl_valid := False, cpl_sop := False, cpl_eop := False, cpl_error := 0,
                              cpl_hdr_lo := 0, cpl_hdr_hi := 0, cpl_data := [0, 0, 0, 0] \<rparr> \<rparr> \<rparr>)"

section \<open>Completions\<close>

definition completion_hdr_hi :: "u16 \<Rightarrow> u32 \<Rightarrow> bool \<Rightarrow> u64" where
  "completion_hdr_hi byte_count len err =
     push_bit 56 0x4a OR push_bit 32 (ucast (len div 4)) OR (ucast byte_count AND 0xfff) OR
     (if err then push_bit 13 1 else 0)"

definition completion_hdr_lo :: "u8 \<Rightarrow> u8 \<Rightarrow> u64" where
  "completion_hdr_lo tag lower_addr = push_bit 40 (ucast tag) OR push_bit 32 (ucast (lower_addr AND 0x7f))"

definition completion_words :: "bytes \<Rightarrow> nat \<Rightarrow> nat \<Rightarrow> u64 list" where
  "completion_words data offset n =
     fold (\<lambda>i ws. ws[i div 8 := ws ! (i div 8) OR push_bit (8 * (i mod 8)) (ucast (data ! (offset + i)))]) [0..<n] [0, 0, 0, 0]"

definition SendCompletion ::
  "'v eval \<Rightarrow> u8 \<Rightarrow> u16 \<Rightarrow> u8 \<Rightarrow> bytes \<Rightarrow> u32 \<Rightarrow> u32 \<Rightarrow> bool \<Rightarrow> 'v Harness \<Rightarrow> 'v Harness outcome" where
  "SendCompletion ev tag byte_count lower_addr data offset len err h =
     (let n = min (unat len) 32
      in if 0 < n \<and> length data < unat offset + n then Undefined
         else
           let t = top h;
               cpl = (dma_rx_cpl t)\<lparr> cpl_hdr_hi := completion_hdr_hi byte_count len err,
                 cpl_hdr_lo := completion_hdr_lo tag lower_addr, cpl_data := completion_words data (unat offset) n,
                 cpl_valid := True, cpl_sop := True, cpl_eop := True \<rparr>;
               h = Tick ev (h\<lparr> top := t\<lparr> dma_rx_cpl := cpl \<rparr> \<rparr>)
           in Done (h\<lparr> top := (top h)\<lparr> dma_rx_cpl := (dma_rx_cpl (top h))\<lparr> cpl_valid := False, cpl_sop := False, cpl_eop := False \<rparr> \<rparr> \<rparr>))"

section \<open>DMA transfers\<close>

type_synonym schedule = "u64 \<Rightarrow> server_op list list"

definition host_request ::
  "schedule \<Rightarrow> MessageType \<Rightarrow> u64 \<Rightarrow> bytes \<Rightarrow> u32 \<Rightarrow> u64 \<Rightarrow> bool \<Rightarrow> MiniIcsServer \<Rightarrow> (Message option \<times> MiniIcsServer) outcome" where
  "host_request sched ty addr pl tlen ts expect srv =
     obind (of_blocking (SendRequestToHost ty addr 0 pl tlen ts expect (sched (next_id (txn_gen srv))) srv))
       (\<lambda>(_, rsp, srv). Done (rsp, srv))"

definition rsp_ok :: "Message option \<Rightarrow> bool" where
  "rsp_ok rsp = (case rsp of None \<Rightarrow> False | Some m \<Rightarrow> Status (header m) = kSuccess)"

text \<open>Ticks up to \<open>n\<close> times, looking at the ports after each tick.\<close>

fun tick_find :: "'v eval \<Rightarrow> ('v Top \<Rightarrow> bool) \<Rightarrow> nat \<Rightarrow> 'v Harness \<Rightarrow> bool \<times> 'v Harness" where
  "tick_find ev P 0 h = (False, h)"
| "tick_find ev P (Suc n) h = (let h = Tick ev h in if P (top h) then (True, h) else tick_find ev P n h)"

text \<open>The loop that splits a read of \<open>rlen\<close> bytes into completions of at most 32 bytes.\<close>

function completions :: "'v eval \<Rightarrow> u8 \<Rightarrow> nat \<Rightarrow> bytes \<Rightarrow> nat \<Rightarrow> 'v Harness \<Rightarrow> 'v Harness outcome" where
  "completions ev tag rlen pl sent h =
     (if sent < rlen then
        (case SendCompletion ev tag (of_nat (rlen - sent))
                (ucast ((req_addr (dma_rd_req (top h)) + of_nat sent) AND 0x7f)) pl
                (of_nat sent) (of_nat (min 32 (rlen - sent))) False h of
           Done h \<Rightarrow> completions ev tag rlen pl (sent + min 32 (rlen - sent)) h
         | Blocked \<Rightarrow> Blocked
         | Undefined \<Rightarrow> Undefined)
      else Done h)"
  by pat_completeness auto
termination by (relation "measure (\<lambda>(_, _, rlen, _, sent, _). rlen - sent)") auto

declare completions.simps [simp del]

definition serve_read_req ::
  "'v eval \<Rightarrow> schedule \<Rightarrow> u8 \<Rightarrow> u64 \<Rightarrow> 'v Harness \<times> MiniIcsServer \<Rightarrow> ('v Harness \<times> MiniIcsServer) outcome" where
  "serve_read_req ev sched tag ts = (\<lambda>(h, srv).
     let rlen = req_len (dma_rd_req (top h))
     in obind (host_request sched kDmaReadReq (req_addr (dma_rd_req (top h))) [] (ucast rlen) ts True srv)
          (\<lambda>(rsp, srv).
             let pl = (case rsp of None \<Rightarrow> [] | Some m \<Rightarrow> payload m)
             in obind (if rsp_ok rsp then completions ev tag (unat rlen) pl 0 h
                       else SendCompletion ev tag 0 0 [] 0 4 True h)
                  (\<lambda>h. Done (h, srv))))"

fun DmaRead_loop ::
  "'v eval \<Rightarrow> schedule \<Rightarrow> u8 \<Rightarrow> u64 \<Rightarrow> nat \<Rightarrow> 'v Harness \<times> MiniIcsServer \<Rightarrow> (bool \<times> 'v Harness \<times> MiniIcsServer) outcome" where
  "DmaRead_loop ev sched tag ts 0 (h, srv) = Done (False, h, srv)"
| "DmaRead_loop ev sched tag ts (Suc n) (h, srv) =
     (let h = Tick ev h
      in case (if req_valid (dma_rd_req (top h)) then serve_read_req ev sched tag ts (h, srv) else Done (h, srv)) of
           Done (h, srv) \<Rightarrow>
             if dma_status_valid (dma_read_status (top h))
             then Done (dma_status_error (dma_read_status (top h)) = 0, h, srv)
             else DmaRead_loop ev sched tag ts n (h, srv)
         | Blocked \<Rightarrow> Blocked
         | Undefined \<Rightarrow> Undefined)"

definition DmaRead ::
  "'v eval \<Rightarrow> schedule \<Rightarrow> u64 \<Rightarrow> u16 \<Rightarrow> u16 \<Rightarrow> u8 \<Rightarrow> u64 \<Rightarrow> 'v Harness \<times> MiniIcsServer
     \<Rightarrow> (bool \<times> 'v Harness \<times> MiniIcsServer) outcome" where
  "DmaRead ev sched addr ram_addr len tag ts = (\<lambda>(h, srv).
     let d = (dma_read_desc (top h))\<lparr> desc_pcie_addr := addr, desc_ram_addr := ram_addr, desc_len := len,
                desc_tag := tag, desc_valid := True \<rparr>;
         h = h\<lparr> top := (top h)\<lparr> dma_read_desc := d \<rparr> \<rparr>;
         (accepted, h) = tick_find ev (\<lambda>t. desc_ready (dma_read_desc t)) 1000 h;
         h = h\<lparr> top := (top h)\<lparr> dma_read_desc := (dma_read_desc (top h))\<lparr> desc_valid := False \<rparr> \<rparr> \<rparr>
     in if \<not> accepted then Done (False, h, srv) else DmaRead_loop ev sched tag ts 2000 (h, srv))"

definition write_req_payload :: "u16 \<Rightarrow> u64 list \<Rightarrow> bytes" where
  "write_req_payload rlen ws =
     map (\<lambda>j. if j < 32 then ucast (drop_bit (8 * (j mod 8)) (ws ! (j div 8))) else 0) [0..<unat rlen]"

fun DmaWrite_loop ::
  "'v eval \<Rightarrow> schedule \<Rightarrow> u64 \<Rightarrow> nat \<Rightarrow> 'v Harness \<times> MiniIcsServer \<Rightarrow> (bool \<times> 'v Harness \<times> MiniIcsServer) outcome" where
  "DmaWrite_loop ev sched ts 0 (h, srv) = Done (False, h, srv)"
| "DmaWrite_loop ev sched ts (Suc n) (h, srv) =
     (let h = Tick ev h;
          r = dma_wr_req (top h)
      in case (if req_valid r
               then host_request sched kDmaWriteReq (req_addr r) (write_req_payload (req_len r) (req_data r)) (ucast (req_len r)) ts True srv
               else Done (None, srv)) of
           Done (rsp, srv) \<Rightarrow>
             if req_valid r \<and> \<not> rsp_ok rsp then Done (False, h, srv)
             else if dma_status_valid (dma_write_status (top h))
             then Done (dma_status_error (dma_write_status (top h)) = 0, h, srv)
             else DmaWrite_loop ev sched ts n (h, srv)
         | Blocked \<Rightarrow> Blocked
         | Undefined \<Rightarrow> Undefined)"

definition DmaWrite ::
  "'v eval \<Rightarrow> schedule \<Rightarrow> u64 \<Rightarrow> u16 \<Rightarrow> u16 \<Rightarrow> u8 \<Rightarrow> u64 \<Rightarrow> 'v Harness \<times> MiniIcsServer
     \<Rightarrow> (bool \<times> 'v Harness \<times> MiniIcsServer) outcome" where
  "DmaWrite ev sched addr ram_addr len tag ts = (\<lambda>(h, srv).
     let d = (dma_write_desc (top h))\<lparr> desc_pcie_addr := addr, desc_ram_addr := ram_addr, desc_len := len,
                desc_tag := tag, desc_valid := True \<rparr>;
         h = h\<lparr> top := (top h)\<lparr> dma_write_desc := d \<rparr> \<rparr>;
         (accepted, h) = tick_find ev (\<lambda>t. desc_ready (dma_write_desc t)) 1000 h;
         h = h\<lparr> top := (top h)\<lparr> dma_write_desc := (dma_write_desc (top h))\<lparr> desc_valid := False \<rparr> \<rparr> \<rparr>
     in if \<not> accepted then Done (False, h, srv) else DmaWrite_loop ev sched ts 2000 (h, srv))"

section \<open>Little-endian helpers\<close>

definition DecodeLe :: "bytes \<Rightarrow> u64" where
  "DecodeLe p = fold (\<lambda>i v. v OR push_bit (8 * i) (ucast (p ! i))) [0..<min (length p) 8] 0"

text \<open>Shifting a 64-bit value by 64 or more is undefined, so only up to eight bytes can be encoded.\<close>

definition EncodeLe :: "u64 \<Rightarrow> u32 \<Rightarrow> bytes outcome" where
  "EncodeLe v len = (if 8 < unat len then Undefined else Done (map (\<lambda>i. ucast (drop_bit (8 * i) v)) [0..<unat len]))"

definition ReadLe16 :: "bytes \<Rightarrow> nat \<Rightarrow> u16" where
  "ReadLe16 p off = (if off + 2 \<le> length p then ucast (p ! off) OR push_bit 8 (ucast (p ! (off + 1))) else 0)"

definition ReadLe32 :: "bytes \<Rightarrow> nat \<Rightarrow> u32" where
  "ReadLe32 p off = fold (\<lambda>i v. v OR push_bit (8 * i) (ucast (p ! (off + i)))) [0..<min 4 (length p - off)] 0"

definition ReadLe64 :: "bytes \<Rightarrow> nat \<Rightarrow> u64" where
  "ReadLe64 p off = fold (\<lambda>i v. v OR push_bit (8 * i) (ucast (p ! (off + i)))) [0..<min 8 (length p - off)] 0"

definition StoreLe :: "bytes \<Rightarrow> nat \<Rightarrow> u64 \<Rightarrow> nat \<Rightarrow> bytes" where
  "StoreLe p off v n = fold (\<lambda>i p. p[off + i := ucast (drop_bit (8 * i) v)]) [0..<n] p"

section \<open>The descriptor ring\<close>

definition kDescBytes :: u32 where "kDescBytes = 32"
definition kCplBytes :: u32 where "kCplBytes = 16"
definition kRamBytes :: u32 where "kRamBytes = 64 * 1024"
definition kMaxTransfer :: u32 where "kMaxTransfer = 4096"

record desc_result =
  dr_status :: u32
  dr_bytes :: u32
  dr_tag :: u32
  dr_flags :: u8

definition transfer_allowed :: "u16 \<Rightarrow> u32 \<Rightarrow> u8 \<Rightarrow> bool" where
  "transfer_allowed len ram_addr opcode \<longleftrightarrow>
     len \<noteq> 0 \<and> ucast len \<le> kMaxTransfer \<and> (ucast ram_addr + ucast len :: u64) \<le> ucast kRamBytes \<and> (opcode = 0 \<or> opcode = 1)"

definition run_descriptor ::
  "'v eval \<Rightarrow> schedule \<Rightarrow> u64 \<Rightarrow> Message option \<Rightarrow> 'v Harness \<times> MiniIcsServer
     \<Rightarrow> (desc_result \<times> 'v Harness \<times> MiniIcsServer) outcome" where
  "run_descriptor ev sched ts rsp hs =
     (case rsp of
        None \<Rightarrow> Done (\<lparr> dr_status = 1, dr_bytes = 0, dr_tag = 0, dr_flags = 0 \<rparr>, hs)
      | Some m \<Rightarrow>
          if Status (header m) = kSuccess \<and> length (payload m) = unat kDescBytes then
            let desc = payload m;
                host_addr = ReadLe64 desc 0;
                ram_addr = ReadLe32 desc 8;
                len = ReadLe16 desc 12;
                opcode = desc ! 14;
                fl = desc ! 15;
                tag = ReadLe32 desc 16
            in if transfer_allowed len ram_addr opcode then
                 obind (if opcode = 0 then DmaRead ev sched host_addr (ucast ram_addr) len (ucast tag) ts hs
                        else DmaWrite ev sched host_addr (ucast ram_addr) len (ucast tag) ts hs)
                   (\<lambda>(ok, hs). Done (\<lparr> dr_status = (if ok then 0 else 1), dr_bytes = (if ok then ucast len else 0),
                                       dr_tag = tag, dr_flags = fl \<rparr>, hs))
               else Done (\<lparr> dr_status = 6, dr_bytes = 0, dr_tag = tag, dr_flags = fl \<rparr>, hs)
          else Done (\<lparr> dr_status = status (header m), dr_bytes = 0, dr_tag = 0, dr_flags = 0 \<rparr>, hs))"

definition completion_record :: "desc_result \<Rightarrow> u32 \<Rightarrow> bytes" where
  "completion_record r index =
     StoreLe (StoreLe (StoreLe (StoreLe (replicate (unat kCplBytes) 0)
       0 (ucast (dr_tag r)) 4) 4 (ucast (dr_status r)) 2) 8 (ucast (dr_bytes r)) 4) 12 (ucast index) 4"

text \<open>The loop over the ring: \<open>n\<close> descriptors are left, the next one is \<open>index\<close>.\<close>

fun dma_loop ::
  "'v eval \<Rightarrow> schedule \<Rightarrow> u64 \<Rightarrow> u64 \<Rightarrow> u32 \<Rightarrow> u64 \<Rightarrow> nat \<Rightarrow> u32 \<Rightarrow> 'v Harness \<times> MiniIcsServer
     \<Rightarrow> (bool \<times> 'v Harness \<times> MiniIcsServer) outcome" where
  "dma_loop ev sched dbase cbase count ts 0 index hs = Done (True, hs)"
| "dma_loop ev sched dbase cbase count ts (Suc n) index (h, srv) =
     (let slot = index mod count
      in case host_request sched kDmaReadReq (dbase + ucast slot * ucast kDescBytes) [] kDescBytes ts True srv of
           Blocked \<Rightarrow> Blocked | Undefined \<Rightarrow> Undefined
         | Done (rsp, srv) \<Rightarrow>
             (case run_descriptor ev sched ts rsp (h, srv) of
                Blocked \<Rightarrow> Blocked | Undefined \<Rightarrow> Undefined
              | Done (r, h, srv) \<Rightarrow>
                  (case host_request sched kDmaWriteReq (cbase + ucast slot * ucast kCplBytes) (completion_record r index)
                          kCplBytes ts True srv of
                     Blocked \<Rightarrow> Blocked | Undefined \<Rightarrow> Undefined
                   | Done (crsp, srv) \<Rightarrow>
                       if \<not> rsp_ok crsp then Done (False, h, srv)
                       else
                         (case (if dr_flags r AND 1 \<noteq> 0 then host_request sched kMsiX 0 [] 0 ts False srv else Done (None, srv)) of
                            Blocked \<Rightarrow> Blocked | Undefined \<Rightarrow> Undefined
                          | Done (_, srv) \<Rightarrow>
                              if dr_status r \<noteq> 0 then Done (False, h, srv)
                              else dma_loop ev sched dbase cbase count ts n (index + 1) (h, srv)))))"

definition RunGenericDma ::
  "'v eval \<Rightarrow> schedule \<Rightarrow> u64 \<Rightarrow> u64 \<Rightarrow> u32 \<Rightarrow> u32 \<Rightarrow> u32 \<Rightarrow> u64 \<Rightarrow> 'v Harness \<times> MiniIcsServer
     \<Rightarrow> (bool \<times> u32 \<times> 'v Harness \<times> MiniIcsServer) outcome" where
  "RunGenericDma ev sched dbase cbase count tail hd_index ts hs =
     (if count = 0 \<or> count > 1024 \<or> tail < hd_index \<or> tail - hd_index > count then Done (False, hd_index, hs)
      else obind (dma_loop ev sched dbase cbase count ts (unat (tail - hd_index)) hd_index hs)
             (\<lambda>(ok, hs). Done (ok, if ok then tail else hd_index, hs)))"

section \<open>The main loop\<close>

record 'v HarnessMain =
  harness :: "'v Harness"
  hsrv :: MiniIcsServer
  asq_shadow :: u64
  acq_shadow :: u64
  desc_base :: u64
  cpl_base :: u64
  desc_count :: u32
  desc_head :: u32
  dma_control :: u32
  dma_status :: u32
  stop_flag :: bool

definition new_HarnessMain :: "'v eval \<Rightarrow> 'v Top \<Rightarrow> MiniIcsServer \<Rightarrow> 'v HarnessMain" where
  "new_HarnessMain ev t srv =
     \<lparr> harness = Reset ev (InitDmaPorts (new_Harness (t\<lparr> mmio := (mmio t)\<lparr> mmio_req_valid := False \<rparr>, rst := True \<rparr>))),
       hsrv = srv, asq_shadow = 0, acq_shadow = 0, desc_base = 0, cpl_base = 0, desc_count = 0, desc_head = 0,
       dma_control = 0, dma_status = 0, stop_flag = False \<rparr>"

definition harness_respond :: "Header \<Rightarrow> bytes \<Rightarrow> 'v HarnessMain \<Rightarrow> 'v HarnessMain outcome" where
  "harness_respond rsp pl s = obind (of_blocking (SendResponse rsp pl (hsrv s))) (\<lambda>(_, srv). Done (s\<lparr> hsrv := srv \<rparr>))"

definition set_low :: "u64 \<Rightarrow> u64 \<Rightarrow> u64" where
  "set_low old v = (old AND 0xffffffff00000000) OR v"

definition set_high :: "u64 \<Rightarrow> u64 \<Rightarrow> u64" where
  "set_high old v = (old AND 0xffffffff) OR push_bit 32 v"

definition shadow_write :: "u64 \<Rightarrow> bytes \<Rightarrow> 'v HarnessMain \<Rightarrow> 'v HarnessMain" where
  "shadow_write addr pl s =
     (let v = DecodeLe pl
      in if addr = 0x28 then s\<lparr> asq_shadow := v \<rparr>
         else if addr = 0x30 then s\<lparr> acq_shadow := v \<rparr>
         else if addr = 0x1040 then s\<lparr> desc_base := set_low (desc_base s) v \<rparr>
         else if addr = 0x1044 then s\<lparr> desc_base := set_high (desc_base s) v \<rparr>
         else if addr = 0x1048 then s\<lparr> cpl_base := set_low (cpl_base s) v \<rparr>
         else if addr = 0x104c then s\<lparr> cpl_base := set_high (cpl_base s) v \<rparr>
         else if addr = 0x1050 then s\<lparr> desc_count := ucast v \<rparr>
         else if addr = 0x105c then
           let s = s\<lparr> dma_control := ucast v \<rparr>
           in if dma_control s AND 2 \<noteq> 0 then s\<lparr> dma_status := 0 \<rparr> else s
         else s)"

definition ring_doorbell :: "'v eval \<Rightarrow> schedule \<Rightarrow> u64 \<Rightarrow> bytes \<Rightarrow> 'v HarnessMain \<Rightarrow> 'v HarnessMain outcome" where
  "ring_doorbell ev sched addr pl s =
     (if addr = 0x1054 \<and> dma_control s AND 1 \<noteq> 0 \<and> desc_count s \<noteq> 0 then
        obind (RunGenericDma ev sched (desc_base s) (cpl_base s) (desc_count s) (ucast (DecodeLe pl)) (desc_head s)
                 (sim_time (harness s)) (harness s, hsrv s))
          (\<lambda>(ok, hd_index, h, srv). Done (s\<lparr> harness := h, hsrv := srv, desc_head := hd_index, dma_status := (if ok then 0 else 1) \<rparr>))
      else Done s)"

definition legacy_doorbell :: "schedule \<Rightarrow> u64 \<Rightarrow> 'v HarnessMain \<Rightarrow> 'v HarnessMain outcome" where
  "legacy_doorbell sched addr s =
     (if addr = 0x1000 \<and> doorbell_seen (harness s) then
        let s = s\<lparr> harness := (harness s)\<lparr> doorbell_seen := False \<rparr> \<rparr>;
            ts = sim_time (harness s)
        in obind (host_request sched kDmaReadReq (asq_shadow s) [] 64 ts True (hsrv s))
             (\<lambda>(rd, srv).
                if rd = None then Done (s\<lparr> hsrv := srv \<rparr>)
                else obind (host_request sched kDmaWriteReq (acq_shadow s) (map (\<lambda>i. of_nat (0xc0 + i)) [0..<16]) 16 ts True srv)
                       (\<lambda>(_, srv). obind (host_request sched kMsiX 0 [] 0 ts False srv)
                          (\<lambda>(_, srv). Done (s\<lparr> hsrv := srv \<rparr>))))
      else Done s)"

definition handle_write :: "'v eval \<Rightarrow> schedule \<Rightarrow> Message \<Rightarrow> u32 \<Rightarrow> 'v HarnessMain \<Rightarrow> 'v HarnessMain outcome" where
  "handle_write ev sched msg len s =
     (let addr = address (header msg);
          (r, h) = Mmio ev True addr len (DecodeLe (payload msg)) (harness s);
          st = (case r of None \<Rightarrow> 5 | Some (_, x) \<Rightarrow> x);
          s = shadow_write addr (payload msg) (s\<lparr> harness := h \<rparr>);
          rsp = MakeHeader kMmioWriteRsp (txn_id (header msg)) addr 0 (if st = 0 then kSuccess else kErrorGeneric)
                  (sim_time (harness s)) 0 kFlagIsResponse 0
      in obind (harness_respond rsp [] s)
           (\<lambda>s. obind (ring_doorbell ev sched addr (payload msg) s) (legacy_doorbell sched addr)))"

definition handle_read :: "'v eval \<Rightarrow> Message \<Rightarrow> u32 \<Rightarrow> 'v HarnessMain \<Rightarrow> 'v HarnessMain outcome" where
  "handle_read ev msg len s =
     (let addr = address (header msg);
          (r, h) = (if addr = 0x1058 then (Some (ucast (dma_status s), 0), harness s)
                    else Mmio ev False addr len (DecodeLe (payload msg)) (harness s));
          (v, st) = (case r of None \<Rightarrow> (0, 5) | Some x \<Rightarrow> x);
          s = s\<lparr> harness := h \<rparr>
      in obind (if st = 0 then EncodeLe v len else Done [])
           (\<lambda>pl. let rsp = MakeHeader kMmioReadRsp (txn_id (header msg)) addr 0 (if st = 0 then kSuccess else kErrorGeneric)
                              (sim_time h) (of_nat (length pl)) kFlagIsResponse (of_nat (length pl))
                 in harness_respond rsp pl s))"

definition handle_message :: "'v eval \<Rightarrow> schedule \<Rightarrow> Message \<Rightarrow> 'v HarnessMain \<Rightarrow> 'v HarnessMain outcome" where
  "handle_message ev sched msg s =
     (let len = (if transfer_len (header msg) \<noteq> 0 then transfer_len (header msg) else of_nat (length (payload msg)))
      in case Type (header msg) of
           kResetReq \<Rightarrow>
             let s = s\<lparr> harness := Reset ev (harness s) \<rparr>
             in harness_respond (MakeHeader kResetRsp (txn_id (header msg)) 0 0 kSuccess (sim_time (harness s)) 0 kFlagIsResponse 0) [] s
         | kMmioReadReq \<Rightarrow> handle_read ev msg len s
         | kMmioWriteReq \<Rightarrow> handle_write ev sched msg len s
         | kShutdown \<Rightarrow> Done (s\<lparr> stop_flag := True \<rparr>)
         | _ \<Rightarrow> Done s)"

text \<open>The loop, for as many iterations as there are entries: the interference of the poll and whether the simulation has finished. The flag says whether it has ended.\<close>

fun main_loop :: "'v eval \<Rightarrow> schedule \<Rightarrow> (server_op list list \<times> bool) list \<Rightarrow> 'v HarnessMain \<Rightarrow> (bool \<times> 'v HarnessMain) outcome" where
  "main_loop ev sched [] s = Done (stop_flag s, s)"
| "main_loop ev sched ((bs, got_finish) # rest) s =
     (if stop_flag s \<or> got_finish then Done (True, s)
      else case PollInbound bs (hsrv s) of
             (None, srv) \<Rightarrow> main_loop ev sched rest (s\<lparr> hsrv := srv, harness := Tick ev (harness s) \<rparr>)
           | (Some msg, srv) \<Rightarrow>
               (case handle_message ev sched msg (s\<lparr> hsrv := srv \<rparr>) of
                  Done s \<Rightarrow> main_loop ev sched rest s
                | Blocked \<Rightarrow> Blocked
                | Undefined \<Rightarrow> Undefined))"

text \<open>
  The whole program, with the kernel's outcomes for \<open>Listen\<close> and the schedule as arguments; the loop must
  have ended (by SHUTDOWN or by the end of the simulation) for the program to return.
\<close>

definition harness_main ::
  "'v eval \<Rightarrow> 'v Top \<Rightarrow> string list \<Rightarrow> int \<Rightarrow> bool \<Rightarrow> bool \<Rightarrow> UnixListener \<Rightarrow> schedule \<Rightarrow> (server_op list list \<times> bool) list
     \<Rightarrow> bool \<Rightarrow> os \<Rightarrow> (int \<times> os) outcome" where
  "harness_main ev t args d bind_ok listen_ok l sched iters busy w =
     (let path = (case args of [] \<Rightarrow> ''/tmp/pcie-vip-verilator.sock'' | a # _ \<Rightarrow> a);
          (started, srv, w) = Start d bind_ok listen_ok (new_MiniIcsServer path 50 5000 l) w
      in if \<not> started then Done (1, w)
         else obind (main_loop ev sched iters (new_HarnessMain ev t srv))
                (\<lambda>(ended, s). if ended
                     then obind (of_blocking (Stop busy (hsrv s) w)) (\<lambda>(_, w). Done (0, w))
                     else Blocked))"

section \<open>Byte helpers\<close>

lemma fold_or_bytes:
  "n \<le> length p - off \<Longrightarrow> off \<le> length p \<Longrightarrow>
   fold (\<lambda>i v. v OR push_bit (8 * i) (ucast (p ! (off + i)))) [0..<n] 0 = (le_value (take n (drop off p)) :: 'a::len word)"
proof -
  assume n: "n \<le> length p - off" "off \<le> length p"
  let ?bs = "take n (drop off p)"
  have "fold (\<lambda>i v. v OR push_bit (8 * i) (ucast (p ! (off + i)))) [0..<n] (0 :: 'a word)
      = fold (\<lambda>i v. v OR push_bit (8 * i) (ucast (?bs ! i))) [0..<n] 0"
    using n by (intro fold_cong) simp_all
  also have "\<dots> = le_value ?bs" using fold_or_le_value [of ?bs "0 :: 'a word"] n by simp
  finally show ?thesis .
qed

lemma DecodeLe_le_value: "length p \<le> 8 \<Longrightarrow> DecodeLe p = le_value p"
  using fold_or_bytes [of "length p" p 0, where 'a = 64] by (simp add: DecodeLe_def)

lemma ReadLe_le_value:
  "off + 2 \<le> length p \<Longrightarrow> ReadLe16 p off = le_value (take 2 (drop off p))"
  "off + 4 \<le> length p \<Longrightarrow> ReadLe32 p off = le_value (take 4 (drop off p))"
  "off + 8 \<le> length p \<Longrightarrow> ReadLe64 p off = le_value (take 8 (drop off p))"
  using fold_or_bytes [of 4 p off, where 'a = 32] fold_or_bytes [of 8 p off, where 'a = 64]
  by (simp_all add: ReadLe16_def ReadLe32_def ReadLe64_def take_drop_nth2)

lemma StoreLe_overwrite: "off + n \<le> length p \<Longrightarrow> StoreLe p off v n = overwrite p off (le_bytes n v)"
  unfolding StoreLe_def le_bytes_def byte_of_def by (rule fold_update_overwrite)

lemma completion_record_layout:
  "completion_record r index =
     le_bytes 4 (ucast (dr_tag r) :: u64) @ le_bytes 2 (ucast (dr_status r) :: u64) @ [0, 0] @
     le_bytes 4 (ucast (dr_bytes r) :: u64) @ le_bytes 4 (ucast index :: u64)"
proof -
  have "replicate 2 (0 :: u8) = [0, 0]" by (simp add: numeral_2_eq_2)
  then show ?thesis by (simp add: completion_record_def StoreLe_overwrite kCplBytes_def overwrite_def)
qed

lemma le_bytes_narrow: "n * 8 \<le> LENGTH('b) \<Longrightarrow> le_bytes n (ucast (v :: 'a::len word) :: 'b::len word) = le_bytes n v"
  by (auto simp: le_bytes_def intro!: bit_word_eqI simp: bit_byte_of bit_ucast_iff dest: bit_imp_le_length)

section \<open>Packing completion data\<close>

lemma length_completion_words [simp]: "length (completion_words data off n) = 4"
proof -
  have "length (fold (\<lambda>i ws. ws[i div 8 := f i ws]) xs ws) = length ws" for f :: "nat \<Rightarrow> u64 list \<Rightarrow> u64" and xs ws
    by (induction xs arbitrary: ws) simp_all
  then show ?thesis by (simp add: completion_words_def)
qed

lemma completion_words_Suc:
  "completion_words data off (Suc n) = (completion_words data off n)
     [n div 8 := completion_words data off n ! (n div 8) OR push_bit (8 * (n mod 8)) (ucast (data ! (off + n)))]"
  by (simp add: completion_words_def)

lemma bit_push_byte:
  "bit (push_bit (8 * m) (ucast (b :: u8)) :: u64) k \<longleftrightarrow> k < 64 \<and> k div 8 = m \<and> bit b (k mod 8)"
proof -
  have "8 * m \<le> k \<and> bit b (k - 8 * m) \<longleftrightarrow> k div 8 = m \<and> bit b (k mod 8)"
  proof
    assume a: "8 * m \<le> k \<and> bit b (k - 8 * m)"
    then have "k - 8 * m < 8" using bit_imp_le_length [of b] by fastforce
    moreover from a have "8 * m \<le> k" by simp
    ultimately obtain j where "k = 8 * m + j" "j < 8" by (metis le_add_diff_inverse)
    then have "k div 8 = m \<and> k mod 8 = k - 8 * m" by simp
    with a show "k div 8 = m \<and> bit b (k mod 8)" by simp
  next
    assume a: "k div 8 = m \<and> bit b (k mod 8)"
    from a have "k div 8 = m" by simp
    then have "k = 8 * m + k mod 8" using div_mult_mod_eq [of k 8] by simp
    then have "8 * m \<le> k \<and> k - 8 * m = k mod 8" by linarith
    with a show "8 * m \<le> k \<and> bit b (k - 8 * m)" by simp
  qed
  then show ?thesis
    by (auto simp: bit_push_bit_iff bit_ucast_iff dest: bit_imp_le_length)
qed

lemma bit_completion_words:
  assumes "n \<le> 32" "w < 4"
  shows "bit (completion_words data off n ! w) k \<longleftrightarrow>
     k < 64 \<and> 8 * w + k div 8 < n \<and> bit (data ! (off + (8 * w + k div 8))) (k mod 8)"
  using assms(1)
proof (induction n)
  case 0
  have "[0, 0, 0, 0] ! w = (0 :: u64)" using assms(2) by (auto simp: less_Suc_eq numeral_eq_Suc)
  then show ?case by (simp add: completion_words_def)
next
  case (Suc n)
  have pos: "8 * w + k div 8 = n \<longleftrightarrow> w = n div 8 \<and> k div 8 = n mod 8" if "k < 64"
  proof
    assume n: "8 * w + k div 8 = n"
    from that have "k div 8 < 8" by simp
    then show "w = n div 8 \<and> k div 8 = n mod 8" by (simp add: n [symmetric])
  next
    assume "w = n div 8 \<and> k div 8 = n mod 8"
    then show "8 * w + k div 8 = n" by simp
  qed
  show ?case
  proof (cases "w = n div 8")
    case False
    with pos Suc show ?thesis by (auto simp: completion_words_Suc less_Suc_eq)
  next
    case True
    with Suc.prems have "n div 8 < length (completion_words data off n)" by simp
    with True Suc have "bit (completion_words data off (Suc n) ! w) k \<longleftrightarrow>
        k < 64 \<and> 8 * w + k div 8 < n \<and> bit (data ! (off + (8 * w + k div 8))) (k mod 8) \<or>
        k < 64 \<and> k div 8 = n mod 8 \<and> bit (data ! (off + n)) (k mod 8)"
      by (simp add: completion_words_Suc bit_or_iff bit_push_byte)
    with True pos show ?thesis by (auto simp: less_Suc_eq)
  qed
qed

lemma words_unpack:
  assumes "n \<le> 32" "off + n \<le> length data"
  shows "write_req_payload (of_nat n) (completion_words data off n) = take n (drop off data)"
proof (rule nth_equalityI)
  have un: "unat (of_nat n :: u16) = n" using assms(1) by (simp add: unat_of_nat)
  then show "length (write_req_payload (of_nat n) (completion_words data off n)) = length (take n (drop off data))"
    using assms(2) by (simp add: write_req_payload_def)
  fix j assume "j < length (write_req_payload (of_nat n) (completion_words data off n))"
  then have j: "j < n" using un by (simp add: write_req_payload_def)
  then have w: "j div 8 < 4" using assms(1) by simp
  have "ucast (drop_bit (8 * (j mod 8)) (completion_words data off n ! (j div 8))) = data ! (off + j)"
  proof (rule bit_word_eqI)
    fix k assume k: "k < LENGTH(8)"
    have "8 * (j mod 8) + k < 64" "(8 * (j mod 8) + k) div 8 = j mod 8" "(8 * (j mod 8) + k) mod 8 = k"
      using k by auto
    moreover have "8 * (j div 8) + j mod 8 = j" by presburger
    ultimately show "bit (ucast (drop_bit (8 * (j mod 8)) (completion_words data off n ! (j div 8))) :: u8) k = bit (data ! (off + j)) k"
      using k j bit_completion_words [OF assms(1) w, of data off "8 * (j mod 8) + k"]
      by (simp add: bit_ucast_iff bit_drop_bit_eq)
  qed
  with j un assms show "write_req_payload (of_nat n) (completion_words data off n) ! j = take n (drop off data) ! j"
    by (simp add: write_req_payload_def)
qed

section \<open>Splitting a read into completions\<close>

lemma SendCompletion_defined:
  "(\<exists>h'. SendCompletion ev tag bc la data off len err h = Done h') \<longleftrightarrow>
     len = 0 \<or> unat off + min (unat len) 32 \<le> length data"
  by (auto simp: SendCompletion_def Let_def not_less unat_eq_0)

lemma completions_defined_aux:
  assumes "rlen < 2 ^ 16" "sent \<le> rlen"
  shows "(\<exists>h'. completions ev tag rlen pl sent h = Done h') \<longleftrightarrow> sent = rlen \<or> rlen \<le> length pl"
  using assms
proof (induction ev tag rlen pl sent h rule: completions.induct)
  case (1 ev tag rlen pl sent h)
  show ?case
  proof (cases "sent < rlen")
    case False
    with "1.prems" show ?thesis by (simp add: completions.simps)
  next
    case True
    define chunk where "chunk = min 32 (rlen - sent)"
    let ?send = "SendCompletion ev tag (of_nat (rlen - sent)) (ucast ((req_addr (dma_rd_req (top h)) + of_nat sent) AND 0x7f))
      pl (of_nat sent) (of_nat chunk) False h"
    have u: "unat (of_nat sent :: u32) = sent" "unat (of_nat chunk :: u32) = chunk" "0 < chunk" "chunk \<le> 32"
        "(of_nat chunk :: u32) \<noteq> 0"
    proof -
      have "rlen < 65536" using "1.prems"(1) by simp
      with True have "sent < 4294967296" by linarith
      moreover have "0 < chunk" "chunk \<le> 32" using True by (simp_all add: chunk_def)
      ultimately show "unat (of_nat sent :: u32) = sent" "unat (of_nat chunk :: u32) = chunk" "0 < chunk" "chunk \<le> 32"
          "(of_nat chunk :: u32) \<noteq> 0"
        by (simp_all add: unat_of_nat flip: unat_eq_0)
    qed
    have eq: "completions ev tag rlen pl sent h = (case ?send of Done h \<Rightarrow> completions ev tag rlen pl (sent + chunk) h
        | Blocked \<Rightarrow> Blocked | Undefined \<Rightarrow> Undefined)"
      using True unfolding chunk_def by (subst completions.simps) simp
    have def_iff: "(\<exists>h'. ?send = Done h') \<longleftrightarrow> sent + chunk \<le> length pl"
      using SendCompletion_defined [of ev tag _ _ pl "of_nat sent" "of_nat chunk" False h] u by simp
    show ?thesis
    proof (cases "sent + chunk \<le> length pl")
      case True
      then obtain h' where h': "?send = Done h'" using def_iff by blast
      have "(\<exists>h''. completions ev tag rlen pl (sent + chunk) h' = Done h'') \<longleftrightarrow> sent + chunk = rlen \<or> rlen \<le> length pl"
        using "1.IH" [OF \<open>sent < rlen\<close> h' [unfolded chunk_def]] \<open>sent < rlen\<close> "1.prems" by (simp add: chunk_def)
      with True h' eq \<open>sent < rlen\<close> show ?thesis by auto
    next
      case False
      then have "\<nexists>h'. ?send = Done h'" using def_iff by blast
      moreover have "\<not> rlen \<le> length pl" using False \<open>sent < rlen\<close> unfolding chunk_def by linarith
      ultimately show ?thesis using eq \<open>sent < rlen\<close> by (auto split: outcome.splits)
    qed
  qed
qed

section \<open>The ring\<close>

lemma transfer_allowed_bounds:
  assumes "transfer_allowed len ram_addr opcode"
  shows "0 < unat len" "unat len \<le> 4096" "unat ram_addr + unat len \<le> 64 * 1024"
    "unat (ucast ram_addr :: u16) = unat ram_addr"
proof -
  have "unat (ucast ram_addr + ucast len :: u64) = unat ram_addr + unat len"
    using unsigned_less [of ram_addr, where ?'a = nat] unsigned_less [of len, where ?'a = nat]
    by (simp add: unat_word_ariths unsigned_ucast_eq take_bit_eq_mod)
  with assms show b: "0 < unat len" "unat len \<le> 4096" "unat ram_addr + unat len \<le> 64 * 1024"
    by (auto simp: transfer_allowed_def kMaxTransfer_def kRamBytes_def word_le_nat_alt unsigned_ucast_eq take_bit_eq_mod unat_gt_0 split: if_splits)
  then have "unat ram_addr < 65536" by linarith
  then show "unat (ucast ram_addr :: u16) = unat ram_addr" by (simp add: unsigned_ucast_eq take_bit_eq_mod)
qed

lemma RunGenericDma_Done:
  assumes "RunGenericDma ev sched dbase cbase count tail hd_index ts hs = Done (ok, hd', hs')"
  shows "hd' = (if ok then tail else hd_index)"
    and "ok \<Longrightarrow> 0 < count \<and> count \<le> 1024 \<and> hd_index \<le> tail \<and> tail - hd_index \<le> count"
  using assms by (auto simp: RunGenericDma_def obind_Done word_gt_0 not_less split: if_splits)

text \<open>The status register is read without going through the device, whatever length is asked for.\<close>

lemma status_read_undefined:
  assumes "Type (header msg) = kMmioReadReq" "address (header msg) = 0x1058" "8 < unat (transfer_len (header msg))"
  shows "handle_message ev sched msg s = Undefined"
  using assms by (auto simp: handle_message_def handle_read_def EncodeLe_def Let_def)

section \<open>Properties of the harness\<close>

text \<open>
  Completion data survives the packing into 64-bit lanes. Packing up to 32 payload bytes into the four
  completion words and reading the bytes back from words laid out that way, as the harness does with the
  device's own write requests, gives the bytes that were packed.
\<close>

theorem lanes_roundtrip:
  assumes "n \<le> 32" "off + n \<le> length data"
  shows "write_req_payload (of_nat n) (completion_words data off n) = take n (drop off data)"
  using words_unpack [OF assms] .

theorem lanes_roundtrip_witness:
  "write_req_payload 3 (completion_words [9, 1, 2, 3, 4] 1 3) = [1, 2, 3]"
  using lanes_roundtrip [of 3 1 "[9, 1, 2, 3, 4]"] by simp

text \<open>
  When completions are well defined. Serving a DMA read of \<open>rlen\<close> bytes in completions of at most 32
  bytes terminates without reading outside the host's payload exactly when the payload has at least \<open>rlen\<close>
  bytes; the harness does not check this length, so a shorter successful answer of the host is read out of
  bounds.
\<close>

theorem read_completions_defined:
  assumes "rlen < 2 ^ 16"
  shows "(\<exists>h'. completions ev tag rlen pl 0 h = Done h') \<longleftrightarrow> rlen = 0 \<or> rlen \<le> length pl"
  using completions_defined_aux [OF assms, of 0 ev tag pl h] by auto

definition sample_top :: "unit Top" where
  "sample_top =
     (let d = \<lparr> desc_valid = False, desc_ready = True, desc_pcie_addr = 0, desc_ram_addr = 0, desc_len = 0, desc_tag = 0 \<rparr>;
          r = \<lparr> req_valid = True, req_ready = True, req_addr = 0, req_len = 4, req_data = [0, 0, 0, 0] \<rparr>;
          c = \<lparr> cpl_valid = False, cpl_sop = False, cpl_eop = False, cpl_error = 0, cpl_hdr_lo = 0, cpl_hdr_hi = 0, cpl_data = [0, 0, 0, 0] \<rparr>;
          s = \<lparr> dma_status_valid = True, dma_status_error = 0 \<rparr>;
          m = \<lparr> mmio_req_valid = False, mmio_req_ready = True, mmio_req_write = False, mmio_req_addr = 0, mmio_req_len = 0,
                mmio_req_data = 0, mmio_rsp_valid = True, mmio_rsp_data = 0, mmio_rsp_status = 0 \<rparr>
      in \<lparr> clk = False, rst = False, mmio = m, dma_read_desc = d, dma_write_desc = d, dma_rd_req = r, dma_wr_req = r,
           dma_rx_cpl = c, dma_read_status = s, dma_write_status = s, doorbell_pulse = False, internals = () \<rparr>)"

theorem read_completions_defined_witness:
  "(\<exists>h'. completions id 7 40 (replicate 64 1) 0 (new_Harness sample_top) = Done h') \<and>
   \<not> (\<exists>h'. completions id 7 40 (replicate 39 1) 0 (new_Harness sample_top) = Done h')"
  using read_completions_defined [of 40 id 7 "replicate 64 1" "new_Harness sample_top"]
    read_completions_defined [of 40 id 7 "replicate 39 1" "new_Harness sample_top"]
  by simp

text \<open>
  A DMA read that the host does not serve makes the harness read through an empty vector. Whenever the
  host's answer is missing or unsuccessful, the error completion is built from four bytes of an empty
  payload, which is undefined behaviour.
\<close>

theorem failed_read_undefined:
  assumes "host_request sched kDmaReadReq (req_addr (dma_rd_req (top h))) [] (ucast (req_len (dma_rd_req (top h)))) ts True srv
     = Done (rsp, srv')" "\<not> rsp_ok rsp"
  shows "serve_read_req ev sched tag ts (h, srv) = Undefined"
  using assms by (simp add: serve_read_req_def SendCompletion_def Let_def)

theorem failed_read_undefined_witness:
  "serve_read_req id (\<lambda>_. []) 7 0 (new_Harness sample_top, (sample_server 0 [])\<lparr>has_client := False\<rparr>) = Undefined"
  using failed_read_undefined [of "\<lambda>_. []" "new_Harness sample_top" 0 "(sample_server 0 [])\<lparr>has_client := False\<rparr>" None _ id 7]
  by (simp add: host_request_def SendRequestToHost_def rsp_ok_def)

text \<open>
  Transfers stay inside the device's RAM. A descriptor is carried out only if its length is between 1
  and 4096 and its RAM range ends inside the 64 KiB; the RAM address then fits the 16-bit port, so the
  truncation at the call changes nothing.
\<close>

theorem transfer_in_ram:
  assumes "transfer_allowed len ram_addr opcode"
  shows "0 < unat len \<and> unat len \<le> 4096 \<and> unat ram_addr + unat len \<le> 64 * 1024 \<and>
    unat (ucast ram_addr :: u16) = unat ram_addr \<and> (opcode = 0 \<or> opcode = 1)"
  using transfer_allowed_bounds [OF assms] assms by (simp add: transfer_allowed_def)

theorem transfer_in_ram_witness: "transfer_allowed 4096 0xF000 1 \<and> unat (ucast (0xF000 :: u32) :: u16) = 0xF000"
  using transfer_in_ram [of 4096 "0xF000" 1] by (simp add: transfer_allowed_def kMaxTransfer_def kRamBytes_def)

text \<open>
  What a completion record says. The 16 bytes written for a descriptor hold, at offsets 0, 4, 8 and 12,
  the tag, the low half of the status, the byte count and the ring index, so the guest reads back exactly
  what the engine recorded.
\<close>

theorem completion_record_fields:
  "length (completion_record r index) = 16 \<and> ReadLe32 (completion_record r index) 0 = dr_tag r \<and>
   ReadLe16 (completion_record r index) 4 = ucast (dr_status r) \<and> ReadLe32 (completion_record r index) 8 = dr_bytes r \<and>
   ReadLe32 (completion_record r index) 12 = index"
proof -
  have len: "length (completion_record r index) = 16" by (simp add: completion_record_layout)
  have st: "le_value (le_bytes 2 (dr_status r)) = (ucast (dr_status r) :: u16)"
    using le_value_le_bytes [of 2 "ucast (dr_status r) :: u16"] by (simp add: le_bytes_narrow)
  show ?thesis
    using len
    by (simp add: ReadLe_le_value completion_record_layout le_bytes_narrow st le_value_le_bytes)
qed



text \<open>
  A reset does not reset the ring. Handling RESET keeps the head index (and the other ring registers)
  of the harness, so a guest that starts again with a tail below the old head has its doorbell refused.
\<close>

theorem reset_keeps_ring:
  assumes "Type (header msg) = kResetReq" "handle_message ev sched msg s = Done s'"
  shows "desc_head s' = desc_head s \<and> desc_base s' = desc_base s \<and> desc_count s' = desc_count s \<and>
    (tail < desc_head s \<longrightarrow>
      RunGenericDma ev sched dbase cbase count tail (desc_head s') ts hs = Done (False, desc_head s, hs))"
  using assms
  by (auto simp: handle_message_def harness_respond_def obind_Done RunGenericDma_def Let_def split: prod.splits)

theorem reset_keeps_ring_witness:
  "\<exists>s'. handle_message id (\<lambda>_. []) (sample_msg kResetReq 5 []) ((new_HarnessMain id sample_top (sample_server 70 []))\<lparr>desc_head := 4\<rparr>) = Done s' \<and>
     RunGenericDma id (\<lambda>_. []) 0 0 8 1 (desc_head s') 0 (new_Harness sample_top, sample_server 0 []) = Done (False, 4, new_Harness sample_top, sample_server 0 [])"
proof -
  let ?s = "(new_HarnessMain id sample_top (sample_server 70 []))\<lparr>desc_head := 4\<rparr>"
  have c: "cooperative 0 (64 + length ([] :: bytes) + 0) (client_socket (sample_server 70 []))"
    by (simp add: ideal_socket_cooperative)
  have t: "Type (header (sample_msg kResetReq 5 [])) = kResetReq" by (simp add: image_iff)
  obtain s' where r: "handle_message id (\<lambda>_. []) (sample_msg kResetReq 5 []) ?s = Done s'"
    using SendResponse_cooperative [OF _ c, of "MakeHeader kResetRsp 5 0 0 kSuccess (sim_time (Reset id (harness ?s))) 0 kFlagIsResponse 0"] t
    by (auto simp: handle_message_def harness_respond_def Let_def new_HarnessMain_def)
  from reset_keeps_ring [OF t r, of 1 0 0 8 0 "(new_Harness sample_top, sample_server 0 [])"] r show ?thesis by auto
qed

end
