(* ===== verification/Guest_Driver.thy ===== *)
theory Guest_Driver
  imports Prelude
begin

text \<open>
  The Linux driver of the guest (\<open>guest/pcie-vip/driver/pcie_vip.c\<close> and \<open>include/pcie_vip_uapi.h\<close>): the
  structures shared with the device and with user space, the DMA test, the \<open>ioctl\<close> entry, probe and remove.

  The device is a parameter: a \<open>bus\<close> says what a register write, a register read and a sleep of the driver do
  to guest memory and to the device, and how many interrupts arrive meanwhile. The answers of the kernel are
  arguments too: the allocator's grants are a list consumed call by call, the clock is a function of the
  number of earlier readings, and \<open>probe_env\<close> holds the results of the calls of \<open>pcie_vip_probe\<close>. A coherent
  buffer is known by its DMA address; the driver's pointer and the device see the same bytes.
\<close>

unbundle bit_operations_syntax

section \<open>Guest memory\<close>

type_synonym memory = "u64 \<Rightarrow> u8"

definition mem_load :: "memory \<Rightarrow> u64 \<Rightarrow> nat \<Rightarrow> bytes" where
  "mem_load m a n = map (\<lambda>i. m (a + of_nat i)) [0..<n]"

definition mem_store :: "memory \<Rightarrow> u64 \<Rightarrow> bytes \<Rightarrow> memory" where
  "mem_store m a bs = (\<lambda>x. if unat (x - a) < length bs then bs ! unat (x - a) else m x)"

section \<open>Structures\<close>

definition VIP_DMA_DESC_BASE_LO :: u64 where "VIP_DMA_DESC_BASE_LO = 0x1040"
definition VIP_DMA_DESC_BASE_HI :: u64 where "VIP_DMA_DESC_BASE_HI = 0x1044"
definition VIP_DMA_CPL_BASE_LO :: u64 where "VIP_DMA_CPL_BASE_LO = 0x1048"
definition VIP_DMA_CPL_BASE_HI :: u64 where "VIP_DMA_CPL_BASE_HI = 0x104c"
definition VIP_DMA_DESC_COUNT :: u64 where "VIP_DMA_DESC_COUNT = 0x1050"
definition VIP_DMA_DESC_TAIL :: u64 where "VIP_DMA_DESC_TAIL = 0x1054"
definition VIP_DMA_STATUS :: u64 where "VIP_DMA_STATUS = 0x1058"
definition VIP_DMA_CONTROL :: u64 where "VIP_DMA_CONTROL = 0x105c"

lemmas vip_registers = VIP_DMA_DESC_BASE_LO_def VIP_DMA_DESC_BASE_HI_def VIP_DMA_CPL_BASE_LO_def
  VIP_DMA_CPL_BASE_HI_def VIP_DMA_DESC_COUNT_def VIP_DMA_DESC_TAIL_def VIP_DMA_STATUS_def VIP_DMA_CONTROL_def

definition EIO :: int where "EIO = 5"
definition ENOMEM :: int where "ENOMEM = 12"
definition EFAULT :: int where "EFAULT = 14"
definition ENODEV :: int where "ENODEV = 19"
definition EINVAL :: int where "EINVAL = 22"
definition ENOTTY :: int where "ENOTTY = 25"
definition ETIMEDOUT :: int where "ETIMEDOUT = 110"

lemmas errnos = EIO_def ENOMEM_def EFAULT_def ENODEV_def EINVAL_def ENOTTY_def ETIMEDOUT_def

record pcie_vip_run_config_t =
  cfg_length :: u32
  cfg_iterations :: u32
  cfg_completed :: u32
  cfg_last_status :: u32
  cfg_elapsed_ns :: u64

record pcie_vip_dma_desc =
  d_host_addr :: u64
  d_ram_addr :: u32
  d_length :: u16
  d_opcode :: u8
  d_flags :: u8
  d_tag :: u32
  d_reserved :: u32
  d_reserved2 :: u64

record pcie_vip_dma_cpl =
  c_tag :: u32
  c_status :: u16
  c_reserved :: u16
  c_bytes :: u32
  c_sequence :: u32

text \<open>The layout in memory: little-endian fields, no padding.\<close>

definition desc_bytes :: "pcie_vip_dma_desc \<Rightarrow> bytes" where
  "desc_bytes d = le_bytes 8 (d_host_addr d) @ le_bytes 4 (d_ram_addr d) @ le_bytes 2 (d_length d) @
     [d_opcode d, d_flags d] @ le_bytes 4 (d_tag d) @ le_bytes 4 (d_reserved d) @ le_bytes 8 (d_reserved2 d)"

definition cpl_at :: "memory \<Rightarrow> u64 \<Rightarrow> pcie_vip_dma_cpl" where
  "cpl_at m a = \<lparr> c_tag = le_value (mem_load m a 4), c_status = le_value (mem_load m (a + 4) 2),
     c_reserved = le_value (mem_load m (a + 6) 2), c_bytes = le_value (mem_load m (a + 8) 4),
     c_sequence = le_value (mem_load m (a + 12) 4) \<rparr>"

section \<open>The driver's world\<close>

text \<open>
  \<open>struct pcie_vip_dev\<close>: the mapping of the BAR, the two buffers of the probe, the completion that the
  interrupt handler signals (its count), the lock, and whether the misc device is registered.
\<close>

record pcie_vip_dev =
  bar0 :: bool
  vip_cmd :: "u64 option"
  vip_completion :: "u64 option"
  irq_done :: u32
  run_lock :: bool
  misc_registered :: bool

record 'd bus =
  bus_write :: "u64 \<Rightarrow> u32 \<Rightarrow> memory \<times> 'd \<Rightarrow> nat \<times> memory \<times> 'd"
  bus_read :: "u64 \<Rightarrow> memory \<times> 'd \<Rightarrow> u32 \<times> nat \<times> memory \<times> 'd"
  bus_sleep :: "memory \<times> 'd \<Rightarrow> nat \<times> memory \<times> 'd"

text \<open>
  What the kernel holds for the PCI device. \<open>dangling_irq\<close> records that the interrupt vectors were freed
  while a handler was still installed on one of them.
\<close>

record pci_resources =
  enabled :: bool
  regions :: bool
  bus_master :: bool
  irq_vectors :: bool
  irq_requested :: bool
  dangling_irq :: bool

record 'd guest =
  vip :: pcie_vip_dev
  gmem :: memory
  device :: 'd
  live :: "(u64 \<times> nat) list"
  grants :: "u64 option list"
  clock_reads :: nat
  pci :: pci_resources

section \<open>Kernel services\<close>

definition complete :: "u32 \<Rightarrow> u32" where
  "complete n = (if n = - 1 then n else n + 1)"

definition pcie_vip_irq :: "pcie_vip_dev \<Rightarrow> pcie_vip_dev" where
  "pcie_vip_irq v = v\<lparr> irq_done := complete (irq_done v) \<rparr>"

definition device_did :: "nat \<times> memory \<times> 'd \<Rightarrow> 'd guest \<Rightarrow> 'd guest" where
  "device_did r s = (case r of (irqs, m, d) \<Rightarrow> s\<lparr> gmem := m, device := d, vip := (pcie_vip_irq ^^ irqs) (vip s) \<rparr>)"

definition iowrite32 :: "'d bus \<Rightarrow> u32 \<Rightarrow> u64 \<Rightarrow> 'd guest \<Rightarrow> 'd guest" where
  "iowrite32 bus v reg s = device_did (bus_write bus reg v (gmem s, device s)) s"

definition ioread32 :: "'d bus \<Rightarrow> u64 \<Rightarrow> 'd guest \<Rightarrow> u32 \<times> 'd guest" where
  "ioread32 bus reg s = (case bus_read bus reg (gmem s, device s) of (v, r) \<Rightarrow> (v, device_did r s))"

definition sleep_once :: "'d bus \<Rightarrow> 'd guest \<Rightarrow> 'd guest" where
  "sleep_once bus s = device_did (bus_sleep bus (gmem s, device s)) s"

definition reinit_completion :: "'d guest \<Rightarrow> 'd guest" where
  "reinit_completion s = s\<lparr> vip := (vip s)\<lparr> irq_done := 0 \<rparr> \<rparr>"

text \<open>Sleeps jiffy by jiffy until the count is positive; the result is the remaining time, 0 on time-out.\<close>

fun wait_for_completion_timeout :: "'d bus \<Rightarrow> nat \<Rightarrow> 'd guest \<Rightarrow> nat \<times> 'd guest" where
  "wait_for_completion_timeout bus n s =
     (if irq_done (vip s) \<noteq> 0 then
        (max 1 n, s\<lparr> vip := (vip s)\<lparr> irq_done := (if irq_done (vip s) = - 1 then - 1 else irq_done (vip s) - 1) \<rparr> \<rparr>)
      else case n of
        0 \<Rightarrow> (0, s)
      | Suc k \<Rightarrow> wait_for_completion_timeout bus k (sleep_once bus s))"

declare wait_for_completion_timeout.simps [simp del]

definition dma_alloc_coherent :: "nat \<Rightarrow> 'd guest \<Rightarrow> u64 option \<times> 'd guest" where
  "dma_alloc_coherent n s =
     (case grants s of
        [] \<Rightarrow> (None, s)
      | None # gs \<Rightarrow> (None, s\<lparr> grants := gs \<rparr>)
      | Some a # gs \<Rightarrow> (Some a, s\<lparr> grants := gs, live := (a, n) # live s \<rparr>))"

definition dma_free_coherent :: "nat \<Rightarrow> u64 \<Rightarrow> 'd guest \<Rightarrow> 'd guest" where
  "dma_free_coherent n a s = s\<lparr> live := remove1 (a, n) (live s) \<rparr>"

definition free_if :: "nat \<Rightarrow> u64 option \<Rightarrow> 'd guest \<Rightarrow> 'd guest" where
  "free_if n p s = (case p of None \<Rightarrow> s | Some a \<Rightarrow> dma_free_coherent n a s)"

definition ktime_get_ns :: "(nat \<Rightarrow> u64) \<Rightarrow> 'd guest \<Rightarrow> u64 \<times> 'd guest" where
  "ktime_get_ns ktime s = (ktime (clock_reads s), s\<lparr> clock_reads := clock_reads s + 1 \<rparr>)"

definition lower_32_bits :: "u64 \<Rightarrow> u32" where
  "lower_32_bits a = ucast a"

definition upper_32_bits :: "u64 \<Rightarrow> u32" where
  "upper_32_bits a = ucast (drop_bit 32 a)"

section \<open>The DMA test\<close>

record dma_buffers =
  desc_dma :: u64
  cpl_dma :: u64
  src_dma :: u64
  dst_dma :: u64

definition pattern_byte :: "nat \<Rightarrow> u8" where
  "pattern_byte i = of_nat (0xa0 + i mod 64)"

definition pattern :: "nat \<Rightarrow> bytes" where
  "pattern n = map pattern_byte [0..<n]"

definition desc0 :: "u32 \<Rightarrow> dma_buffers \<Rightarrow> pcie_vip_dma_desc" where
  "desc0 len b = \<lparr> d_host_addr = src_dma b, d_ram_addr = 0, d_length = ucast len, d_opcode = 0, d_flags = 0,
     d_tag = 0x100, d_reserved = 0, d_reserved2 = 0 \<rparr>"

definition desc1 :: "u32 \<Rightarrow> dma_buffers \<Rightarrow> pcie_vip_dma_desc" where
  "desc1 len b = \<lparr> d_host_addr = dst_dma b, d_ram_addr = 0, d_length = ucast len, d_opcode = 1, d_flags = 1,
     d_tag = 0x101, d_reserved = 0, d_reserved2 = 0 \<rparr>"

definition fill_descriptors :: "u32 \<Rightarrow> dma_buffers \<Rightarrow> 'd guest \<Rightarrow> 'd guest" where
  "fill_descriptors len b s = s\<lparr> gmem := mem_store (gmem s) (desc_dma b) (desc_bytes (desc0 len b) @ desc_bytes (desc1 len b)) \<rparr>"

definition program_ring :: "'d bus \<Rightarrow> dma_buffers \<Rightarrow> 'd guest \<Rightarrow> 'd guest" where
  "program_ring bus b s =
     iowrite32 bus 1 VIP_DMA_CONTROL
     (iowrite32 bus 2 VIP_DMA_DESC_COUNT
     (iowrite32 bus (upper_32_bits (cpl_dma b)) VIP_DMA_CPL_BASE_HI
     (iowrite32 bus (lower_32_bits (cpl_dma b)) VIP_DMA_CPL_BASE_LO
     (iowrite32 bus (upper_32_bits (desc_dma b)) VIP_DMA_DESC_BASE_HI
     (iowrite32 bus (lower_32_bits (desc_dma b)) VIP_DMA_DESC_BASE_LO s)))))"

definition prepare_buffers :: "u32 \<Rightarrow> dma_buffers \<Rightarrow> 'd guest \<Rightarrow> 'd guest" where
  "prepare_buffers len b s =
     s\<lparr> gmem := mem_store (mem_store (mem_store (gmem s) (cpl_dma b) (replicate 32 0)) (dst_dma b) (replicate (unat len) 0))
                  (src_dma b) (pattern (unat len)) \<rparr>"

text \<open>Up to \<open>n\<close> reads of the status register, with a sleep after each that is not zero.\<close>

fun wait_status :: "'d bus \<Rightarrow> nat \<Rightarrow> 'd guest \<Rightarrow> bool \<times> 'd guest" where
  "wait_status bus 0 s = (False, s)"
| "wait_status bus (Suc n) s =
     (let (v, s) = ioread32 bus VIP_DMA_STATUS s
      in if v = 0 then (True, s) else wait_status bus n (sleep_once bus s))"

definition data_ok :: "u32 \<Rightarrow> dma_buffers \<Rightarrow> memory \<Rightarrow> bool" where
  "data_ok len b m \<longleftrightarrow> list_all (\<lambda>i. m (dst_dma b + of_nat i) = pattern_byte i) [0..<unat len]"

definition completions_ok :: "u32 \<Rightarrow> dma_buffers \<Rightarrow> memory \<Rightarrow> bool" where
  "completions_ok len b m \<longleftrightarrow>
     (let c0 = cpl_at m (cpl_dma b); c1 = cpl_at m (cpl_dma b + 16)
      in c_tag c0 = 0x100 \<and> c_status c0 = 0 \<and> c_bytes c0 = len \<and> c_tag c1 = 0x101 \<and> c_status c1 = 0 \<and> c_bytes c1 = len)"

text \<open>One pass of the loop: the return code (0 to go on) and the new state. \<open>tail\<close> is already advanced.\<close>

definition run_iteration :: "'d bus \<Rightarrow> nat \<Rightarrow> u32 \<Rightarrow> dma_buffers \<Rightarrow> u32 \<Rightarrow> 'd guest \<Rightarrow> int \<times> 'd guest" where
  "run_iteration bus HZ len b tail s =
     (let (idle, s) = wait_status bus 50 (prepare_buffers len b s)
      in if \<not> idle then (- ETIMEDOUT, s)
         else
           let s = iowrite32 bus tail VIP_DMA_DESC_TAIL (reinit_completion s);
               (timeout, s) = wait_for_completion_timeout bus (5 * HZ) s
           in if timeout = 0 then (- ETIMEDOUT, s)
              else if \<not> data_ok len b (gmem s) then (- EIO, s)
              else if \<not> completions_ok len b (gmem s) then (- EIO, s)
              else (0, s))"

fun run_loop ::
  "'d bus \<Rightarrow> nat \<Rightarrow> u32 \<Rightarrow> dma_buffers \<Rightarrow> nat \<Rightarrow> u32 \<Rightarrow> u32 \<Rightarrow> pcie_vip_run_config_t \<Rightarrow> 'd guest \<Rightarrow> int \<times> pcie_vip_run_config_t \<times> 'd guest" where
  "run_loop bus HZ len b 0 iter tail cfg s = (0, cfg, s)"
| "run_loop bus HZ len b (Suc n) iter tail cfg s =
     (let tail = tail + 2;
          (ret, s) = run_iteration bus HZ len b tail s
      in if ret \<noteq> 0 then (ret, cfg, s)
         else run_loop bus HZ len b n (iter + 1) tail (cfg\<lparr> cfg_completed := iter + 1 \<rparr>) s)"

definition locked_run ::
  "'d bus \<Rightarrow> nat \<Rightarrow> (nat \<Rightarrow> u64) \<Rightarrow> u32 \<Rightarrow> u32 \<Rightarrow> dma_buffers \<Rightarrow> pcie_vip_run_config_t \<Rightarrow> 'd guest \<Rightarrow> int \<times> pcie_vip_run_config_t \<times> 'd guest" where
  "locked_run bus HZ ktime len iterations b cfg s =
     (let s = s\<lparr> vip := (vip s)\<lparr> run_lock := True \<rparr> \<rparr>;
          (start_ns, s) = ktime_get_ns ktime s;
          cfg = cfg\<lparr> cfg_completed := 0, cfg_last_status := 0, cfg_elapsed_ns := 0 \<rparr>;
          s = program_ring bus b (fill_descriptors len b s);
          (ret, cfg, s) = run_loop bus HZ len b (unat iterations) 0 0 cfg s;
          (end_ns, s) = ktime_get_ns ktime s;
          cfg = cfg\<lparr> cfg_elapsed_ns := end_ns - start_ns, cfg_last_status := (if ret \<noteq> 0 then of_int (- ret) else 0) \<rparr>
      in (ret, cfg, s\<lparr> vip := (vip s)\<lparr> run_lock := False \<rparr> \<rparr>))"

definition free_dma :: "u32 \<Rightarrow> u64 option \<Rightarrow> u64 option \<Rightarrow> u64 option \<Rightarrow> u64 option \<Rightarrow> 'd guest \<Rightarrow> 'd guest" where
  "free_dma len desc cpl src dst s =
     free_if 64 desc (free_if 32 cpl (free_if (unat len) src (free_if (unat len) dst s)))"

definition effective_length :: "pcie_vip_run_config_t \<Rightarrow> u32" where
  "effective_length cfg = (if cfg_length cfg \<noteq> 0 then cfg_length cfg else 64)"

definition effective_iterations :: "pcie_vip_run_config_t \<Rightarrow> u32" where
  "effective_iterations cfg = (if cfg_iterations cfg \<noteq> 0 then cfg_iterations cfg else 1)"

text \<open>\<open>None\<close>: another run holds the lock, and the caller sleeps until it is released.\<close>

definition pcie_vip_run_config ::
  "'d bus \<Rightarrow> nat \<Rightarrow> (nat \<Rightarrow> u64) \<Rightarrow> pcie_vip_run_config_t \<Rightarrow> 'd guest \<Rightarrow> (int \<times> pcie_vip_run_config_t \<times> 'd guest) option" where
  "pcie_vip_run_config bus HZ ktime cfg s =
     (let len = effective_length cfg; iterations = effective_iterations cfg
      in if len = 0 \<or> len > 4096 \<or> iterations = 0 \<or> iterations > 1024 then Some (- EINVAL, cfg, s)
         else
           let (desc, s) = dma_alloc_coherent 64 s;
               (cpl, s) = dma_alloc_coherent 32 s;
               (src, s) = dma_alloc_coherent (unat len) s;
               (dst, s) = dma_alloc_coherent (unat len) s
           in if desc = None \<or> cpl = None \<or> src = None \<or> dst = None
              then Some (- ENOMEM, cfg, free_dma len desc cpl src dst s)
              else if run_lock (vip s) then None
              else
                let b = \<lparr> desc_dma = the desc, cpl_dma = the cpl, src_dma = the src, dst_dma = the dst \<rparr>;
                    (ret, cfg, s) = locked_run bus HZ ktime len iterations b cfg s
                in Some (ret, cfg, free_dma len desc cpl src dst s))"

definition pcie_vip_run :: "'d bus \<Rightarrow> nat \<Rightarrow> (nat \<Rightarrow> u64) \<Rightarrow> 'd guest \<Rightarrow> (int \<times> 'd guest) option" where
  "pcie_vip_run bus HZ ktime s =
     map_option (\<lambda>(ret, _, s). (ret, s))
       (pcie_vip_run_config bus HZ ktime
          \<lparr> cfg_length = 64, cfg_iterations = 1, cfg_completed = 0, cfg_last_status = 0, cfg_elapsed_ns = 0 \<rparr> s)"

section \<open>The \<open>ioctl\<close> entry\<close>

definition IOC :: "u32 \<Rightarrow> u32 \<Rightarrow> u32 \<Rightarrow> u32 \<Rightarrow> u32" where
  "IOC dir ty nr sz = push_bit 30 dir OR push_bit 16 sz OR push_bit 8 ty OR nr"

definition PCIE_VIP_IOC_RUN :: u32 where "PCIE_VIP_IOC_RUN = IOC 0 (of_char CHR ''V'') 0 0"
definition PCIE_VIP_IOC_RUN_CONFIG :: u32 where "PCIE_VIP_IOC_RUN_CONFIG = IOC 3 (of_char CHR ''V'') 1 24"

text \<open>
  The user's structure is an argument, \<open>None\<close> if reading it faults; \<open>writable\<close> says whether it can be written
  back. The result carries what the user's structure holds afterwards.
\<close>

definition pcie_vip_ioctl ::
  "'d bus \<Rightarrow> nat \<Rightarrow> (nat \<Rightarrow> u64) \<Rightarrow> u32 \<Rightarrow> pcie_vip_run_config_t option \<Rightarrow> bool \<Rightarrow> 'd guest
     \<Rightarrow> (int \<times> pcie_vip_run_config_t option \<times> 'd guest) option" where
  "pcie_vip_ioctl bus HZ ktime cmd arg writable s =
     (if cmd = PCIE_VIP_IOC_RUN then map_option (\<lambda>(ret, s). (ret, arg, s)) (pcie_vip_run bus HZ ktime s)
      else if cmd = PCIE_VIP_IOC_RUN_CONFIG then
        (case arg of
           None \<Rightarrow> Some (- EFAULT, arg, s)
         | Some cfg \<Rightarrow>
             map_option (\<lambda>(ret, cfg, s). if \<not> writable then (- EFAULT, arg, s) else (ret, Some cfg, s))
               (pcie_vip_run_config bus HZ ktime cfg s))
      else Some (- ENOTTY, arg, s))"

section \<open>Probe and remove\<close>

text \<open>The results of the kernel calls of \<open>pcie_vip_probe\<close>, in their order.\<close>

record probe_env =
  pe_kzalloc :: bool
  pe_enable :: int
  pe_iomap :: int
  pe_table :: bool
  pe_mask64 :: int
  pe_mask32 :: int
  pe_vectors :: int
  pe_irq :: int
  pe_misc :: int

definition set_pci :: "(pci_resources \<Rightarrow> pci_resources) \<Rightarrow> 'd guest \<Rightarrow> 'd guest" where
  "set_pci f s = s\<lparr> pci := f (pci s) \<rparr>"

definition pci_free_irq_vectors :: "'d guest \<Rightarrow> 'd guest" where
  "pci_free_irq_vectors =
     set_pci (\<lambda>p. p\<lparr> irq_vectors := False, dangling_irq := dangling_irq p \<or> irq_vectors p \<and> irq_requested p \<rparr>)"

definition new_vip :: pcie_vip_dev where
  "new_vip = \<lparr> bar0 = False, vip_cmd = None, vip_completion = None, irq_done = 0, run_lock = False, misc_registered = False \<rparr>"

definition err_vectors :: "int \<Rightarrow> 'd guest \<Rightarrow> int \<times> 'd guest" where
  "err_vectors ret s = (ret, pci_free_irq_vectors s)"

definition err_dma :: "int \<Rightarrow> 'd guest \<Rightarrow> int \<times> 'd guest" where
  "err_dma ret s = err_vectors ret (free_if 64 (vip_cmd (vip s)) (free_if 16 (vip_completion (vip s)) s))"

definition probe_buffers :: "probe_env \<Rightarrow> 'd guest \<Rightarrow> int \<times> 'd guest" where
  "probe_buffers e s =
     (let (cmd, s) = dma_alloc_coherent 64 s;
          (cpl, s) = dma_alloc_coherent 16 s;
          s = s\<lparr> vip := (vip s)\<lparr> vip_cmd := cmd, vip_completion := cpl \<rparr> \<rparr>
      in if cmd = None \<or> cpl = None then err_dma (- ENOMEM) s
         else if pe_misc e \<noteq> 0 then err_dma (pe_misc e) s
         else (0, s\<lparr> vip := (vip s)\<lparr> misc_registered := True \<rparr> \<rparr>))"

definition probe_interrupts :: "probe_env \<Rightarrow> 'd guest \<Rightarrow> int \<times> 'd guest" where
  "probe_interrupts e s =
     (if pe_vectors e < 0 then (pe_vectors e, s)
      else
        let s = set_pci (\<lambda>p. p\<lparr> irq_vectors := True \<rparr>) s
        in if pe_irq e \<noteq> 0 then err_vectors (pe_irq e) s
           else probe_buffers e (set_pci (\<lambda>p. p\<lparr> irq_requested := True \<rparr>) s))"

definition pcie_vip_probe :: "probe_env \<Rightarrow> 'd guest \<Rightarrow> int \<times> 'd guest" where
  "pcie_vip_probe e s =
     (if \<not> pe_kzalloc e then (- ENOMEM, s)
      else
        let s = s\<lparr> vip := new_vip \<rparr>
        in if pe_enable e \<noteq> 0 then (pe_enable e, s)
           else
             let s = set_pci (\<lambda>p. p\<lparr> enabled := True \<rparr>) s
             in if pe_iomap e \<noteq> 0 then (pe_iomap e, s)
                else
                  let s = set_pci (\<lambda>p. p\<lparr> regions := True \<rparr>) s
                  in if \<not> pe_table e then (- ENODEV, s)
                     else
                       let s = set_pci (\<lambda>p. p\<lparr> bus_master := True \<rparr>) (s\<lparr> vip := (vip s)\<lparr> bar0 := True \<rparr> \<rparr>);
                           ret = (if pe_mask64 e \<noteq> 0 then pe_mask32 e else 0)
                       in if ret \<noteq> 0 then (ret, s) else probe_interrupts e s)"

text \<open>
  Binding by the driver core: when the probe fails, the managed resources (handler, mapping, enabling) are
  released after it returns.
\<close>

definition release_managed :: "'d guest \<Rightarrow> 'd guest" where
  "release_managed = set_pci (\<lambda>p. p\<lparr> irq_requested := False, regions := False, enabled := False \<rparr>)"

definition bind_driver :: "probe_env \<Rightarrow> 'd guest \<Rightarrow> int \<times> 'd guest" where
  "bind_driver e s = (case pcie_vip_probe e s of (ret, s) \<Rightarrow> (ret, if ret = 0 then s else release_managed s))"

definition pcie_vip_remove :: "'d guest \<Rightarrow> 'd guest" where
  "pcie_vip_remove s =
     (let s = s\<lparr> vip := (vip s)\<lparr> misc_registered := False \<rparr> \<rparr>;
          s = set_pci (\<lambda>p. p\<lparr> irq_requested := False \<rparr>) s;
          s = free_if 16 (vip_completion (vip s)) s;
          s = free_if 64 (vip_cmd (vip s)) s
      in pci_free_irq_vectors s)"

definition unbind_driver :: "'d guest \<Rightarrow> 'd guest" where
  "unbind_driver s = release_managed (pcie_vip_remove s)"

section \<open>Facts about guest memory\<close>

lemma length_mem_load [simp]: "length (mem_load m a n) = n"
  by (simp add: mem_load_def)

lemma nth_mem_load [simp]: "i < n \<Longrightarrow> mem_load m a n ! i = m (a + of_nat i)"
  by (simp add: mem_load_def)

lemma mem_load_cong: "(\<And>i. i < n \<Longrightarrow> m (a + of_nat i) = m' (a + of_nat i)) \<Longrightarrow> mem_load m a n = mem_load m' a n"
  by (simp add: mem_load_def)

lemma mem_load_add: "mem_load m a (n + k) = mem_load m a n @ mem_load m (a + of_nat n) k"
  by (auto simp: list_eq_iff_nth_eq nth_append ac_simps simp flip: of_nat_add)

lemma mem_store_same:
  assumes "length bs \<le> 2 ^ 64"
  shows "mem_load (mem_store m a bs) a (length bs) = bs"
proof (rule nth_equalityI)
  fix i assume "i < length (mem_load (mem_store m a bs) a (length bs))"
  moreover from this assms have "unat (of_nat i :: u64) = i" by (simp add: unat_of_nat)
  ultimately show "mem_load (mem_store m a bs) a (length bs) ! i = bs ! i"
    by (simp add: mem_store_def)
qed simp

text \<open>Two ranges that do not wrap around and do not overlap.\<close>

definition apart :: "u64 \<Rightarrow> nat \<Rightarrow> u64 \<Rightarrow> nat \<Rightarrow> bool" where
  "apart a n b k \<longleftrightarrow> unat a + n \<le> 2 ^ 64 \<and> unat b + k \<le> 2 ^ 64 \<and> (unat a + n \<le> unat b \<or> unat b + k \<le> unat a)"

lemma apart_sym: "apart a n b k \<longleftrightarrow> apart b k a n"
  by (auto simp: apart_def)

lemma apart_less: "apart a n b k \<Longrightarrow> n' \<le> n \<Longrightarrow> k' \<le> k \<Longrightarrow> apart a n' b k'"
  by (auto simp: apart_def)

lemma unat_offset: "unat (a :: u64) + i < 2 ^ 64 \<Longrightarrow> unat (a + of_nat i) = unat a + i"
  by (simp add: unat_word_ariths unat_of_nat)

lemma apart_offset:
  assumes "apart a n b k" "i + k' \<le> k"
  shows "apart a n (b + of_nat i) k'"
proof (cases "unat b + i < 2 ^ 64")
  case True
  then show ?thesis using assms unat_offset [OF True] by (auto simp: apart_def)
next
  case False
  with assms have z: "k' = 0" "unat b + i = 2 ^ 64" by (auto simp: apart_def)
  then have "unat (b + of_nat i) = 0" by (simp add: unat_word_ariths unat_of_nat mod_add_right_eq)
  with assms z show ?thesis by (auto simp: apart_def)
qed

lemma mem_store_apart:
  assumes "apart a (length bs) b n"
  shows "mem_load (mem_store m a bs) b n = mem_load m b n"
proof (rule mem_load_cong)
  fix i assume i: "i < n"
  with assms have ub: "unat (b + of_nat i) = unat b + i" by (intro unat_offset) (auto simp: apart_def)
  have "\<not> unat (b + of_nat i - a) < length bs"
  proof (cases "a \<le> b + of_nat i")
    case True
    then have "unat (b + of_nat i - a) = unat b + i - unat a" by (simp add: unat_sub ub)
    with assms i True show ?thesis by (auto simp: apart_def word_le_nat_alt ub)
  next
    case False
    then have "unat (b + of_nat i - a) = 2 ^ 64 + (unat b + i) - unat a"
      using unat_sub_if' [of "b + of_nat i" a] by (simp add: ub word_le_nat_alt)
    with assms i False show ?thesis by (auto simp: apart_def word_le_nat_alt ub)
  qed
  then show "mem_store m a bs (b + of_nat i) = m (b + of_nat i)" by (simp add: mem_store_def)
qed

lemma data_ok_iff: "data_ok len b m \<longleftrightarrow> mem_load m (dst_dma b) (unat len) = pattern (unat len)"
  by (auto simp: data_ok_def list_all_iff list_eq_iff_nth_eq pattern_def)

section \<open>What the device cannot change\<close>

definition same_frame :: "'d guest \<Rightarrow> 'd guest \<Rightarrow> bool" where
  "same_frame s s' \<longleftrightarrow> live s' = live s \<and> grants s' = grants s \<and> clock_reads s' = clock_reads s \<and> pci s' = pci s \<and>
     (vip s')\<lparr>irq_done := 0\<rparr> = (vip s)\<lparr>irq_done := 0\<rparr>"

lemma same_frame_refl [simp]: "same_frame s s"
  by (simp add: same_frame_def)

lemma same_frame_trans: "same_frame s s' \<Longrightarrow> same_frame s' s'' \<Longrightarrow> same_frame s s''"
  by (simp add: same_frame_def)

lemma same_frame_fields:
  assumes "same_frame s s'"
  shows "live s' = live s" "grants s' = grants s" "clock_reads s' = clock_reads s" "pci s' = pci s"
    "run_lock (vip s') = run_lock (vip s)" "misc_registered (vip s') = misc_registered (vip s)"
    "vip_cmd (vip s') = vip_cmd (vip s)" "vip_completion (vip s') = vip_completion (vip s)"
  using assms by (cases "vip s"; cases "vip s'"; simp add: same_frame_def)+

lemma irqs_frame: "((pcie_vip_irq ^^ n) v)\<lparr>irq_done := 0\<rparr> = v\<lparr>irq_done := 0\<rparr>"
  by (induction n) (simp_all add: pcie_vip_irq_def)

lemma device_did_frame: "same_frame s (device_did r s)"
  by (simp add: device_did_def same_frame_def irqs_frame split: prod.split)

lemma io_frame:
  "same_frame s (iowrite32 bus v reg s)" "same_frame s (snd (ioread32 bus reg s))" "same_frame s (sleep_once bus s)"
  by (simp_all add: iowrite32_def ioread32_def sleep_once_def device_did_frame split: prod.split)

lemma local_frame:
  "same_frame s (reinit_completion s)" "same_frame s (prepare_buffers len b s)" "same_frame s (fill_descriptors len b s)"
  by (simp_all add: reinit_completion_def prepare_buffers_def fill_descriptors_def same_frame_def)

lemma program_ring_frame: "same_frame s (program_ring bus b s)"
  unfolding program_ring_def by (meson io_frame(1) same_frame_trans)

lemma wait_status_frame: "same_frame s (snd (wait_status bus n s))"
proof (induction n arbitrary: s)
  case (Suc n)
  obtain v s1 where r: "ioread32 bus VIP_DMA_STATUS s = (v, s1)" by fastforce
  then have "same_frame s s1" using io_frame(2) [of s bus VIP_DMA_STATUS] by simp
  moreover have "same_frame s1 (snd (wait_status bus n (sleep_once bus s1)))"
    using io_frame(3) Suc by (rule same_frame_trans)
  ultimately show ?case using same_frame_trans by (auto simp: r)
qed simp

lemma wait_for_completion_frame: "same_frame s (snd (wait_for_completion_timeout bus n s))"
proof (induction n arbitrary: s)
  case 0
  show ?case by (simp add: wait_for_completion_timeout.simps same_frame_def)
next
  case (Suc n)
  show ?case
    using Suc [of "sleep_once bus s"] io_frame(3) [of s bus]
    by (subst wait_for_completion_timeout.simps) (auto simp: same_frame_def)
qed

lemma run_iteration_frame: "same_frame s (snd (run_iteration bus HZ len b tail s))"
proof -
  obtain idle s1 where w: "wait_status bus 50 (prepare_buffers len b s) = (idle, s1)" by fastforce
  obtain t s2 where c: "wait_for_completion_timeout bus (5 * HZ) (iowrite32 bus tail VIP_DMA_DESC_TAIL (reinit_completion s1)) = (t, s2)"
    by fastforce
  have "same_frame s s1"
    using wait_status_frame [of "prepare_buffers len b s" bus 50] w local_frame(2) same_frame_trans by fastforce
  moreover have "same_frame s1 s2"
    using wait_for_completion_frame [of "iowrite32 bus tail VIP_DMA_DESC_TAIL (reinit_completion s1)" bus "5 * HZ"] c
      local_frame(1) [of s1] io_frame(1) same_frame_trans by (metis snd_conv)
  ultimately show ?thesis using same_frame_trans by (auto simp: run_iteration_def w c)
qed

lemma run_loop_frame: "run_loop bus HZ len b n iter tail cfg s = (ret, cfg', s') \<Longrightarrow> same_frame s s'"
proof (induction n arbitrary: iter tail cfg s)
  case (Suc n)
  obtain r s1 where i: "run_iteration bus HZ len b (tail + 2) s = (r, s1)" by fastforce
  have "same_frame s s1" using run_iteration_frame [of s bus HZ len b "tail + 2"] i by simp
  with Suc.prems Suc.IH [of "iter + 1" "tail + 2" "cfg\<lparr>cfg_completed := iter + 1\<rparr>" s1] i same_frame_trans show ?case
    by (auto simp: Let_def split: if_splits)
qed simp

section \<open>Outcomes of a run\<close>

lemma run_iteration_success:
  assumes "run_iteration bus HZ len b tail s = (0, s')"
  shows "data_ok len b (gmem s') \<and> completions_ok len b (gmem s')"
  using assms by (auto simp: run_iteration_def Let_def errnos split: if_splits prod.splits)

lemma run_iteration_codes: "fst (run_iteration bus HZ len b tail s) \<in> {0, - ETIMEDOUT, - EIO}"
  by (simp add: run_iteration_def Let_def split: prod.split)

text \<open>
  The loop counts the iterations it finishes: it returns 0 exactly when all of them have passed, and the
  last one has left verified data and completions behind.
\<close>

lemma run_loop_outcome:
  assumes "run_loop bus HZ len b n iter tail cfg s = (ret, cfg', s')" "cfg_completed cfg = iter" "unat iter + n < 2 ^ 32"
  shows "ret \<in> {0, - ETIMEDOUT, - EIO} \<and> unat (cfg_completed cfg') \<le> unat iter + n \<and>
    (ret = 0 \<longleftrightarrow> unat (cfg_completed cfg') = unat iter + n) \<and>
    (ret = 0 \<longrightarrow> 0 < n \<longrightarrow> data_ok len b (gmem s') \<and> completions_ok len b (gmem s')) \<and>
    cfg_length cfg' = cfg_length cfg \<and> cfg_iterations cfg' = cfg_iterations cfg"
  using assms
proof (induction n arbitrary: iter tail cfg s)
  case 0
  then show ?case by simp
next
  case (Suc n)
  obtain r s1 where i: "run_iteration bus HZ len b (tail + 2) s = (r, s1)" by fastforce
  have iter: "unat (iter + 1) = unat iter + 1" using Suc.prems(3) by (simp add: unat_word_ariths)
  show ?case
  proof (cases "r = 0")
    case False
    with Suc.prems i run_iteration_codes [of bus HZ len b "tail + 2" s] show ?thesis by (auto simp: Let_def)
  next
    case True
    with Suc.prems(1) i have rest: "run_loop bus HZ len b n (iter + 1) (tail + 2) (cfg\<lparr>cfg_completed := iter + 1\<rparr>) s1 = (ret, cfg', s')"
      by (simp add: Let_def)
    show ?thesis
    proof (cases n)
      case 0
      with rest True i iter run_iteration_success [of bus HZ len b "tail + 2" s s1] show ?thesis by auto
    next
      case (Suc k)
      with Suc.IH [OF rest] Suc.prems(3) iter show ?thesis by auto
    qed
  qed
qed

definition valid_config :: "pcie_vip_run_config_t \<Rightarrow> bool" where
  "valid_config cfg \<longleftrightarrow> cfg_length cfg \<le> 4096 \<and> cfg_iterations cfg \<le> 1024"

lemma effective_valid:
  "valid_config cfg \<longleftrightarrow> effective_length cfg \<le> 4096 \<and> effective_iterations cfg \<le> 1024"
  "effective_length cfg \<noteq> 0" "effective_iterations cfg \<noteq> 0"
  by (auto simp: valid_config_def effective_length_def effective_iterations_def)

text \<open>The four buffers of a run, if the allocator grants them.\<close>

definition granted :: "'d guest \<Rightarrow> dma_buffers option" where
  "granted s = (case grants s of
      Some d # Some c # Some r # Some t # _ \<Rightarrow> Some \<lparr> desc_dma = d, cpl_dma = c, src_dma = r, dst_dma = t \<rparr>
    | _ \<Rightarrow> None)"

definition allocated :: "u32 \<Rightarrow> dma_buffers \<Rightarrow> 'd guest \<Rightarrow> 'd guest" where
  "allocated len b s = s\<lparr> grants := drop 4 (grants s),
     live := (dst_dma b, unat len) # (src_dma b, unat len) # (cpl_dma b, 32) # (desc_dma b, 64) # live s \<rparr>"

lemma run_config_invalid: "\<not> valid_config cfg \<Longrightarrow> pcie_vip_run_config bus HZ ktime cfg s = Some (- EINVAL, cfg, s)"
  by (auto simp: effective_valid pcie_vip_run_config_def not_le)

lemma alloc_simps [simp]:
  "grants s = [] \<Longrightarrow> dma_alloc_coherent n s = (None, s)"
  "grants s = None # gs \<Longrightarrow> dma_alloc_coherent n s = (None, s\<lparr>grants := gs\<rparr>)"
  "grants s = Some a # gs \<Longrightarrow> dma_alloc_coherent n s = (Some a, s\<lparr>grants := gs, live := (a, n) # live s\<rparr>)"
  by (simp_all add: dma_alloc_coherent_def)

lemma run_config_granted:
  assumes "valid_config cfg" "granted s = Some b"
  shows "pcie_vip_run_config bus HZ ktime cfg s =
    (if run_lock (vip s) then None
     else case locked_run bus HZ ktime (effective_length cfg) (effective_iterations cfg) b cfg (allocated (effective_length cfg) b s) of
       (ret, cfg', s') \<Rightarrow> Some (ret, cfg', free_dma (effective_length cfg) (Some (desc_dma b)) (Some (cpl_dma b))
                                       (Some (src_dma b)) (Some (dst_dma b)) s'))"
proof -
  obtain d c r t gs where g: "grants s = Some d # Some c # Some r # Some t # gs"
      and b: "b = \<lparr> desc_dma = d, cpl_dma = c, src_dma = r, dst_dma = t \<rparr>"
    using assms(2) by (auto simp: granted_def split: list.splits option.splits)
  show ?thesis
    using assms(1) by (simp add: pcie_vip_run_config_def g b allocated_def effective_valid not_less [symmetric] Let_def split: prod.split)
qed

lemma alloc_cases:
  assumes "dma_alloc_coherent n s = (p, s')"
  obtains "p = None" "\<exists>gs. s' = s\<lparr>grants := gs\<rparr>" "\<forall>a gs. grants s \<noteq> Some a # gs"
  | a gs where "p = Some a" "grants s = Some a # gs" "s' = s\<lparr>grants := gs, live := (a, n) # live s\<rparr>"
proof (cases "grants s")
  case Nil
  with assms show ?thesis by (intro that(1)) (auto intro: exI [of _ "grants s"])
next
  case (Cons x gs)
  with assms show ?thesis by (cases x) (auto intro: that)
qed

lemma free_if_undo: "free_if n (Some a) (s\<lparr>live := (a, n) # xs\<rparr>) = s\<lparr>live := xs\<rparr>" "free_if n None s = s"
  by (simp_all add: free_if_def dma_free_coherent_def)

lemma run_config_ungranted:
  assumes "valid_config cfg" "granted s = None"
  shows "\<exists>gs. pcie_vip_run_config bus HZ ktime cfg s = Some (- ENOMEM, cfg, s\<lparr>grants := gs\<rparr>)"
proof -
  let ?n = "unat (effective_length cfg)"
  obtain d s1 where a1: "dma_alloc_coherent 64 s = (d, s1)" by fastforce
  obtain c s2 where a2: "dma_alloc_coherent 32 s1 = (c, s2)" by fastforce
  obtain r s3 where a3: "dma_alloc_coherent ?n s2 = (r, s3)" by fastforce
  obtain t s4 where a4: "dma_alloc_coherent ?n s3 = (t, s4)" by fastforce
  have none: "d = None \<or> c = None \<or> r = None \<or> t = None"
    using assms(2)
    by (cases rule: alloc_cases [OF a1]; cases rule: alloc_cases [OF a2]; cases rule: alloc_cases [OF a3];
        cases rule: alloc_cases [OF a4]) (auto simp: granted_def)
  have undo: "\<exists>gs. free_dma (effective_length cfg) d c r t s4 = s\<lparr>grants := gs\<rparr>"
  proof -
    have step: "\<exists>gs. free_if n p (u'\<lparr>grants := hs\<rparr>) = u\<lparr>grants := gs\<rparr>"
      if "dma_alloc_coherent n u = (p, u')" for n p u u' hs
      using that by (cases rule: alloc_cases [OF that]) (auto simp: free_if_def dma_free_coherent_def)
    from step [OF a4] obtain g4 where "free_if ?n t s4 = s3\<lparr>grants := g4\<rparr>" by (metis guest.surjective guest.update_convs(5))
    moreover from step [OF a3] obtain g3 where "free_if ?n r (s3\<lparr>grants := g4\<rparr>) = s2\<lparr>grants := g3\<rparr>" by blast
    moreover from step [OF a2] obtain g2 where "free_if 32 c (s2\<lparr>grants := g3\<rparr>) = s1\<lparr>grants := g2\<rparr>" by blast
    moreover from step [OF a1] obtain g1 where "free_if 64 d (s1\<lparr>grants := g2\<rparr>) = s\<lparr>grants := g1\<rparr>" by blast
    ultimately show ?thesis by (auto simp: free_dma_def)
  qed
  with assms(1) none show ?thesis
    by (auto simp: pcie_vip_run_config_def a1 a2 a3 a4 effective_valid not_less [symmetric] Let_def)
qed

lemma free_all_undo:
  assumes "live s = (dst_dma b, unat len) # (src_dma b, unat len) # (cpl_dma b, 32) # (desc_dma b, 64) # xs"
  shows "free_dma len (Some (desc_dma b)) (Some (cpl_dma b)) (Some (src_dma b)) (Some (dst_dma b)) s = s\<lparr>live := xs\<rparr>"
  by (simp add: free_dma_def free_if_def dma_free_coherent_def assms)

text \<open>The state and the configuration in which the loop of a run starts.\<close>

definition started :: "'d bus \<Rightarrow> u32 \<Rightarrow> dma_buffers \<Rightarrow> 'd guest \<Rightarrow> 'd guest" where
  "started bus len b s = program_ring bus b (fill_descriptors len b
     (s\<lparr>vip := (vip s)\<lparr>run_lock := True\<rparr>, clock_reads := clock_reads s + 1\<rparr>))"

definition cleared :: "pcie_vip_run_config_t \<Rightarrow> pcie_vip_run_config_t" where
  "cleared cfg = cfg\<lparr>cfg_completed := 0, cfg_last_status := 0, cfg_elapsed_ns := 0\<rparr>"

lemma cleared_simps [simp]:
  "cfg_completed (cleared cfg) = 0" "cfg_length (cleared cfg) = cfg_length cfg" "cfg_iterations (cleared cfg) = cfg_iterations cfg"
  by (simp_all add: cleared_def)

lemma started_frame: "same_frame (s\<lparr>vip := (vip s)\<lparr>run_lock := True\<rparr>, clock_reads := clock_reads s + 1\<rparr>) (started bus len b s)"
  unfolding started_def using program_ring_frame local_frame(3) same_frame_trans by blast

lemma locked_run_loop:
  assumes "run_loop bus HZ len b (unat iterations) 0 0 (cleared cfg) (started bus len b s) = (ret, c, s3)"
  shows "locked_run bus HZ ktime len iterations b cfg s =
    (ret, c\<lparr>cfg_elapsed_ns := ktime (clock_reads s + 1) - ktime (clock_reads s), cfg_last_status := of_int (- ret)\<rparr>,
     s3\<lparr>clock_reads := clock_reads s + 2, vip := (vip s3)\<lparr>run_lock := False\<rparr>\<rparr>)"
proof -
  have "same_frame (s\<lparr>vip := (vip s)\<lparr>run_lock := True\<rparr>, clock_reads := clock_reads s + 1\<rparr>) s3"
    using started_frame run_loop_frame [OF assms] by (rule same_frame_trans)
  then have "clock_reads s3 = clock_reads s + 1" by (simp add: same_frame_fields)
  with assms show ?thesis by (simp add: locked_run_def ktime_get_ns_def started_def cleared_def)
qed

lemma locked_run_outcome:
  assumes "locked_run bus HZ ktime len iterations b cfg s = (ret, cfg', s')" "iterations \<noteq> 0"
  shows "live s' = live s" "grants s' = grants s" "pci s' = pci s" "\<not> run_lock (vip s')"
    "ret \<in> {0, - ETIMEDOUT, - EIO}" "cfg_completed cfg' \<le> iterations" "ret = 0 \<longleftrightarrow> cfg_completed cfg' = iterations"
    "ret = 0 \<longrightarrow> data_ok len b (gmem s') \<and> completions_ok len b (gmem s')"
    "cfg_last_status cfg' = of_int (- ret)" "cfg_elapsed_ns cfg' = ktime (clock_reads s + 1) - ktime (clock_reads s)"
    "cfg_length cfg' = cfg_length cfg" "cfg_iterations cfg' = cfg_iterations cfg"
proof -
  obtain r c s3 where l: "run_loop bus HZ len b (unat iterations) 0 0 (cleared cfg) (started bus len b s) = (r, c, s3)"
    by (metis prod_cases3)
  note f = same_frame_fields [OF same_frame_trans [OF started_frame run_loop_frame [OF l]]]
  from assms(1) locked_run_loop [OF l, of ktime]
  have o: "ret = r" "s' = s3\<lparr>clock_reads := clock_reads s + 2, vip := (vip s3)\<lparr>run_lock := False\<rparr>\<rparr>"
    "cfg' = c\<lparr>cfg_elapsed_ns := ktime (clock_reads s + 1) - ktime (clock_reads s), cfg_last_status := of_int (- r)\<rparr>"
    by auto
  have b: "unat (0 :: u32) + unat iterations < 2 ^ 32" using unsigned_less [of iterations] by simp
  note out = run_loop_outcome [OF l _ b]
  have n: "0 < unat iterations" using assms(2) by (simp add: unat_gt_0)
  show "live s' = live s" "grants s' = grants s" "pci s' = pci s" "\<not> run_lock (vip s')" using f o by simp_all
  show "ret \<in> {0, - ETIMEDOUT, - EIO}" "cfg_completed cfg' \<le> iterations" "ret = 0 \<longleftrightarrow> cfg_completed cfg' = iterations"
    using out o by (auto simp: word_le_nat_alt word_unat_eq_iff)
  show "ret = 0 \<longrightarrow> data_ok len b (gmem s') \<and> completions_ok len b (gmem s')" using out o n by simp
  show "cfg_last_status cfg' = of_int (- ret)" "cfg_elapsed_ns cfg' = ktime (clock_reads s + 1) - ktime (clock_reads s)" using o f by simp_all
  show "cfg_length cfg' = cfg_length cfg" "cfg_iterations cfg' = cfg_iterations cfg" using out o by simp_all
qed

lemma run_config_cases:
  assumes "pcie_vip_run_config bus HZ ktime cfg s = Some (ret, cfg', s')"
  obtains (invalid) "\<not> valid_config cfg" "ret = - EINVAL" "cfg' = cfg" "s' = s"
  | (no_memory) gs where "valid_config cfg" "granted s = None" "ret = - ENOMEM" "cfg' = cfg" "s' = s\<lparr>grants := gs\<rparr>"
  | (ran) b s1 where "valid_config cfg" "granted s = Some b" "\<not> run_lock (vip s)"
      "locked_run bus HZ ktime (effective_length cfg) (effective_iterations cfg) b cfg (allocated (effective_length cfg) b s) = (ret, cfg', s1)"
      "s' = s1\<lparr>live := live s\<rparr>"
proof (cases "valid_config cfg")
  case False
  with assms show ?thesis by (intro invalid) (simp_all add: run_config_invalid)
next
  case v: True
  show ?thesis
  proof (cases "granted s")
    case None
    with v assms run_config_ungranted [OF v None, of bus HZ ktime] show ?thesis by (auto intro: no_memory)
  next
    case (Some b)
    let ?len = "effective_length cfg"
    obtain r c s1 where l: "locked_run bus HZ ktime ?len (effective_iterations cfg) b cfg (allocated ?len b s) = (r, c, s1)"
      by (metis prod_cases3)
    have "live s1 = live (allocated ?len b s)" by (rule locked_run_outcome [OF l effective_valid(3)])
    then have "free_dma ?len (Some (desc_dma b)) (Some (cpl_dma b)) (Some (src_dma b)) (Some (dst_dma b)) s1 = s1\<lparr>live := live s\<rparr>"
      by (intro free_all_undo) (simp add: allocated_def)
    with assms l show ?thesis
      by (intro ran [OF v Some, of s1]) (auto simp: run_config_granted [OF v Some] split: if_splits)
  qed
qed

section \<open>A device that never interrupts\<close>

definition silent :: "'d bus \<Rightarrow> bool" where
  "silent bus \<longleftrightarrow> (\<forall>reg v x. fst (bus_write bus reg v x) = 0) \<and> (\<forall>reg x. fst (snd (bus_read bus reg x)) = 0) \<and>
     (\<forall>x. fst (bus_sleep bus x) = 0)"

lemma device_did_no_irq: "fst r = 0 \<Longrightarrow> irq_done (vip (device_did r s)) = irq_done (vip s)"
  by (cases r) (auto simp: device_did_def)

lemma quiet_wait:
  assumes "\<forall>x. fst (bus_sleep bus x) = 0" "irq_done (vip s) = 0"
  shows "fst (wait_for_completion_timeout bus n s) = 0"
  using assms(2)
proof (induction n arbitrary: s)
  case 0
  then show ?case by (simp add: wait_for_completion_timeout.simps)
next
  case (Suc n)
  have "irq_done (vip (sleep_once bus s)) = 0"
    using assms(1) Suc.prems by (simp add: sleep_once_def device_did_no_irq)
  with Suc show ?case by (simp add: wait_for_completion_timeout.simps)
qed

lemma silent_iteration:
  assumes "silent bus"
  shows "fst (run_iteration bus HZ len b tail s) = - ETIMEDOUT"
proof -
  obtain idle u where w: "wait_status bus 50 (prepare_buffers len b s) = (idle, u)" by fastforce
  let ?u = "iowrite32 bus tail VIP_DMA_DESC_TAIL (reinit_completion u)"
  obtain t u' where c: "wait_for_completion_timeout bus (5 * HZ) ?u = (t, u')" by fastforce
  have "irq_done (vip ?u) = 0"
    using assms by (simp add: iowrite32_def device_did_no_irq silent_def reinit_completion_def)
  then have "t = 0" using quiet_wait [of bus ?u "5 * HZ"] assms c by (simp add: silent_def)
  then show ?thesis by (simp add: run_iteration_def w c)
qed

lemma first_iteration_timeout:
  assumes "valid_config cfg" "granted s = Some b" "\<not> run_lock (vip s)"
    and "fst (run_iteration bus HZ (effective_length cfg) b 2
           (started bus (effective_length cfg) b (allocated (effective_length cfg) b s))) = - ETIMEDOUT"
  shows "\<exists>cfg' s'. pcie_vip_run_config bus HZ ktime cfg s = Some (- ETIMEDOUT, cfg', s') \<and>
    cfg_completed cfg' = 0 \<and> cfg_last_status cfg' = 110 \<and> live s' = live s"
proof -
  let ?len = "effective_length cfg" and ?n = "unat (effective_iterations cfg)"
  let ?s = "allocated ?len b s"
  obtain k where n: "?n = Suc k" using effective_valid(3) [of cfg] by (cases ?n) (auto simp: unat_eq_0)
  obtain s3 where i: "run_iteration bus HZ ?len b 2 (started bus ?len b ?s) = (- ETIMEDOUT, s3)"
    using assms(4) by (metis prod.collapse)
  have "run_loop bus HZ ?len b ?n 0 0 (cleared cfg) (started bus ?len b ?s) = (- ETIMEDOUT, cleared cfg, s3)"
    by (simp add: n i errnos)
  note l = locked_run_loop [OF this, of ktime]
  note out = locked_run_outcome [OF l effective_valid(3)]
  have "free_dma ?len (Some (desc_dma b)) (Some (cpl_dma b)) (Some (src_dma b)) (Some (dst_dma b)) x = x\<lparr>live := live s\<rparr>"
    if "live x = live ?s" for x :: "'a guest"
    using that by (intro free_all_undo) (simp add: allocated_def)
  with l out(1) assms(3) show ?thesis by (simp add: run_config_granted [OF assms(1,2)] errnos)
qed

section \<open>What the driver expects of its device\<close>

text \<open>The four buffers of a run do not overlap.\<close>

definition run_buffers :: "u32 \<Rightarrow> dma_buffers \<Rightarrow> bool" where
  "run_buffers len b \<longleftrightarrow>
     apart (desc_dma b) 64 (cpl_dma b) 32 \<and> apart (desc_dma b) 64 (src_dma b) (unat len) \<and> apart (desc_dma b) 64 (dst_dma b) (unat len) \<and>
     apart (cpl_dma b) 32 (src_dma b) (unat len) \<and> apart (cpl_dma b) 32 (dst_dma b) (unat len) \<and>
     apart (src_dma b) (unat len) (dst_dma b) (unat len)"

lemma length_pattern [simp]: "length (pattern n) = n"
  by (simp add: pattern_def)

lemma device_did_nothing [simp]: "device_did (0, gmem s, device s) s = s"
  by (simp add: device_did_def)

lemma length_desc_bytes [simp]: "length (desc_bytes d) = 32"
  by (simp add: desc_bytes_def)

lemma wait_status_idle:
  "bus_read bus VIP_DMA_STATUS (gmem s, device s) = (0, 0, gmem s, device s) \<Longrightarrow> 0 < n \<Longrightarrow> wait_status bus n s = (True, s)"
  by (cases n) (simp_all add: ioread32_def)

lemma prepared_memory:
  assumes "run_buffers len b" "unat len \<le> 2 ^ 64"
  shows "mem_load (gmem (prepare_buffers len b s)) (src_dma b) (unat len) = pattern (unat len)"
    "mem_load (gmem (prepare_buffers len b s)) (desc_dma b) 64 = mem_load (gmem s) (desc_dma b) 64"
proof -
  show "mem_load (gmem (prepare_buffers len b s)) (src_dma b) (unat len) = pattern (unat len)"
    using mem_store_same [of "pattern (unat len)"] assms(2) by (simp add: prepare_buffers_def)
  have "apart (cpl_dma b) 32 (desc_dma b) 64" "apart (dst_dma b) (unat len) (desc_dma b) 64" "apart (src_dma b) (unat len) (desc_dma b) 64"
    using assms(1) by (auto simp: run_buffers_def apart_def)
  then show "mem_load (gmem (prepare_buffers len b s)) (desc_dma b) 64 = mem_load (gmem s) (desc_dma b) 64"
    by (simp add: prepare_buffers_def mem_store_apart)
qed

text \<open>
  The contract of a DMA device, on which the test relies: \<open>ready len b tail\<close> says that the device is idle, has
  been told about the rings of \<open>b\<close> and has consumed descriptors up to \<open>tail\<close>. Programming a fresh device makes it
  ready; it reads as idle; the driver's preparation of the buffers does not disturb it; and a doorbell two
  descriptors further runs both, raises one interrupt and leaves it ready.
\<close>

locale dma_device =
  fixes bus :: "'d bus" and ready :: "u32 \<Rightarrow> dma_buffers \<Rightarrow> u32 \<Rightarrow> memory \<Rightarrow> 'd \<Rightarrow> bool" and fresh :: "'d \<Rightarrow> bool"
  assumes programmed_ready: "fresh (device s) \<Longrightarrow>
      mem_load (gmem s) (desc_dma b) 64 = desc_bytes (desc0 len b) @ desc_bytes (desc1 len b) \<Longrightarrow>
      ready len b 0 (gmem (program_ring bus b s)) (device (program_ring bus b s))"
    and ready_idle: "ready len b tail m d \<Longrightarrow> bus_read bus VIP_DMA_STATUS (m, d) = (0, 0, m, d)"
    and ready_memory: "ready len b tail m d \<Longrightarrow> mem_load m' (desc_dma b) 64 = mem_load m (desc_dma b) 64 \<Longrightarrow> ready len b tail m' d"
    and doorbell: "ready len b tail m d \<Longrightarrow> len \<noteq> 0 \<Longrightarrow> len \<le> 4096 \<Longrightarrow> run_buffers len b \<Longrightarrow>
      mem_load m (src_dma b) (unat len) = pattern (unat len) \<Longrightarrow> unat tail mod 2 = 0 \<Longrightarrow> unat tail + 2 < 2 ^ 32 \<Longrightarrow>
      \<exists>m' d'. bus_write bus VIP_DMA_DESC_TAIL (tail + 2) (m, d) = (1, m', d') \<and>
        mem_load m' (dst_dma b) (unat len) = pattern (unat len) \<and> completions_ok len b m' \<and> ready len b (tail + 2) m' d'"
begin

lemma device_iteration:
  assumes ok: "len \<noteq> 0" "len \<le> 4096" "run_buffers len b"
    and rdy: "ready len b tail (gmem s) (device s)"
    and tail: "unat tail mod 2 = 0" "unat tail + 2 < 2 ^ 32"
  shows "\<exists>s'. run_iteration bus HZ len b (tail + 2) s = (0, s') \<and> ready len b (tail + 2) (gmem s') (device s')"
proof -
  let ?p = "prepare_buffers len b s"
  let ?s1 = "reinit_completion ?p"
  have small: "unat len \<le> 2 ^ 64" using ok(2) by (simp add: word_le_nat_alt)
  have p: "device ?p = device s" "gmem ?s1 = gmem ?p" "device ?s1 = device s" "irq_done (vip ?s1) = 0"
    by (simp_all add: prepare_buffers_def reinit_completion_def)
  have rp: "ready len b tail (gmem ?p) (device s)"
    using rdy prepared_memory(2) [OF ok(3) small] by (rule ready_memory)
  have st: "wait_status bus 50 ?p = (True, ?p)"
    using ready_idle [OF rp] p(1) by (intro wait_status_idle) simp_all
  obtain m' d' where w: "bus_write bus VIP_DMA_DESC_TAIL (tail + 2) (gmem ?p, device s) = (1, m', d')"
      and m': "mem_load m' (dst_dma b) (unat len) = pattern (unat len)" "completions_ok len b m'" "ready len b (tail + 2) m' d'"
    using doorbell [OF rp ok prepared_memory(1) [OF ok(3) small] tail] by blast
  let ?s2 = "?s1\<lparr>gmem := m', device := d', vip := (vip ?s1)\<lparr>irq_done := 1\<rparr>\<rparr>"
  have io: "iowrite32 bus (tail + 2) VIP_DMA_DESC_TAIL ?s1 = ?s2"
    using w p by (simp add: iowrite32_def device_did_def pcie_vip_irq_def complete_def)
  have wc: "wait_for_completion_timeout bus (5 * HZ) ?s2 = (max 1 (5 * HZ), ?s2\<lparr>vip := (vip ?s1)\<lparr>irq_done := 0\<rparr>\<rparr>)"
    by (simp add: wait_for_completion_timeout.simps)
  have "run_iteration bus HZ len b (tail + 2) s = (0, ?s2\<lparr>vip := (vip ?s1)\<lparr>irq_done := 0\<rparr>\<rparr>)"
    using m'(1,2) by (simp add: run_iteration_def st io wc data_ok_iff)
  with m'(3) show ?thesis by auto
qed

lemma device_run_loop:
  assumes ok: "len \<noteq> 0" "len \<le> 4096" "run_buffers len b"
    and "ready len b tail (gmem s) (device s)" "unat tail mod 2 = 0" "unat tail + 2 * n < 2 ^ 32"
  shows "\<exists>cfg' s'. run_loop bus HZ len b n iter tail cfg s = (0, cfg', s') \<and> ready len b (tail + 2 * of_nat n) (gmem s') (device s')"
  using assms(4-6)
proof (induction n arbitrary: tail iter cfg s)
  case 0
  then show ?case by simp
next
  case (Suc n)
  then obtain s1 where i: "run_iteration bus HZ len b (tail + 2) s = (0, s1)" "ready len b (tail + 2) (gmem s1) (device s1)"
    using device_iteration [OF ok, of tail s HZ] by auto
  have t: "unat (tail + 2) = unat tail + 2" using Suc.prems(3) by (simp add: unat_word_ariths)
  have "\<exists>cfg' s'. run_loop bus HZ len b n (iter + 1) (tail + 2) (cfg\<lparr>cfg_completed := iter + 1\<rparr>) s1 = (0, cfg', s') \<and>
      ready len b (tail + 2 + 2 * of_nat n) (gmem s') (device s')"
    using Suc.IH [OF i(2)] Suc.prems(2,3) t by simp
  with i(1) show ?case by (simp add: algebra_simps)
qed

lemma run_passes:
  assumes "valid_config cfg" "granted s = Some b" "run_buffers (effective_length cfg) b" "\<not> run_lock (vip s)" "fresh (device s)"
  shows "\<exists>cfg' s'. pcie_vip_run_config bus HZ ktime cfg s = Some (0, cfg', s') \<and>
    mem_load (gmem s') (dst_dma b) (unat (effective_length cfg)) = pattern (unat (effective_length cfg)) \<and>
    cfg_completed cfg' = effective_iterations cfg \<and>
    ready (effective_length cfg) b (2 * effective_iterations cfg) (gmem s') (device s')"
proof -
  let ?len = "effective_length cfg" and ?n = "effective_iterations cfg"
  let ?s = "allocated ?len b s"
  have v: "?len \<noteq> 0" "?len \<le> 4096" "?n \<le> 1024" using assms(1) effective_valid [of cfg] by auto
  have n: "unat (0 :: u32) + 2 * unat ?n < 2 ^ 32" using v(3) by (simp add: word_le_nat_alt)
  let ?f = "fill_descriptors ?len b (?s\<lparr>vip := (vip ?s)\<lparr>run_lock := True\<rparr>, clock_reads := clock_reads ?s + 1\<rparr>)"
  have "mem_load (gmem ?f) (desc_dma b) 64 = desc_bytes (desc0 ?len b) @ desc_bytes (desc1 ?len b)"
    using mem_store_same [of "desc_bytes (desc0 ?len b) @ desc_bytes (desc1 ?len b)" "gmem s" "desc_dma b"]
    by (simp add: fill_descriptors_def allocated_def)
  then have "ready ?len b 0 (gmem (started bus ?len b ?s)) (device (started bus ?len b ?s))"
    unfolding started_def using assms(5) by (intro programmed_ready) (simp_all add: fill_descriptors_def allocated_def)
  from device_run_loop [OF v(1,2) assms(3) this _ n, of HZ 0 "cleared cfg"] obtain c s3
    where l: "run_loop bus HZ ?len b (unat ?n) 0 0 (cleared cfg) (started bus ?len b ?s) = (0, c, s3)"
      and r: "ready ?len b (2 * ?n) (gmem s3) (device s3)" by auto
  note lr = locked_run_loop [OF l, of ktime]
  note out = locked_run_outcome [OF lr effective_valid(3)]
  have "free_dma ?len (Some (desc_dma b)) (Some (cpl_dma b)) (Some (src_dma b)) (Some (dst_dma b)) x = x\<lparr>live := live s\<rparr>"
    if "live x = live ?s" for x :: "'d guest"
    using that by (intro free_all_undo) (simp add: allocated_def)
  with lr out(1,7,8) assms(4) r show ?thesis
    by (simp add: run_config_granted [OF assms(1,2)] data_ok_iff)
qed

end

section \<open>Properties of a run\<close>

definition idle_pci :: pci_resources where
  "idle_pci = \<lparr> enabled = False, regions = False, bus_master = False, irq_vectors = False, irq_requested = False, dangling_irq = False \<rparr>"

definition fresh_guest :: "u64 option list \<Rightarrow> 'd \<Rightarrow> 'd guest" where
  "fresh_guest gs d = \<lparr> vip = new_vip, gmem = (\<lambda>_. 0), device = d, live = [], grants = gs, clock_reads = 0, pci = idle_pci \<rparr>"

definition dead_bus :: "unit bus" where
  "dead_bus = \<lparr> bus_write = (\<lambda>_ _ x. (0, x)), bus_read = (\<lambda>_ x. (0, 0, x)), bus_sleep = (\<lambda>x. (0, x)) \<rparr>"

definition sample_config :: "u32 \<Rightarrow> u32 \<Rightarrow> pcie_vip_run_config_t" where
  "sample_config len n = \<lparr> cfg_length = len, cfg_iterations = n, cfg_completed = 7, cfg_last_status = 7, cfg_elapsed_ns = 7 \<rparr>"

definition sample_grants :: "u64 option list" where
  "sample_grants = [Some 0x1000, Some 0x2000, Some 0x4000, Some 0x6000]"

lemma dead_bus_silent: "silent dead_bus"
  by (simp add: silent_def dead_bus_def)

text \<open>
  C21: every run gives back what it took. Whatever the device does and whichever path is taken (rejected
  configuration, failed allocation at any of the four places, time-out, wrong data, success), when
  \<open>pcie_vip_run_config\<close> returns, the live coherent buffers are exactly those from before, the lock is as it
  was, and the PCI resources and the probe's buffers are untouched.
\<close>

theorem run_releases_resources:
  assumes "pcie_vip_run_config bus HZ ktime cfg s = Some (ret, cfg', s')"
  shows "live s' = live s \<and> run_lock (vip s') = run_lock (vip s) \<and> pci s' = pci s"
  using assms
proof (cases rule: run_config_cases)
  case (ran b s1)
  from locked_run_outcome [OF ran(4) effective_valid(3)] ran show ?thesis by (simp add: allocated_def)
qed simp_all

theorem run_releases_resources_witness:
  "\<exists>s'. pcie_vip_run_config dead_bus 100 of_nat (sample_config 16 1) (fresh_guest [Some 0x1000, None, Some 0x4000] ())
       = Some (- ENOMEM, sample_config 16 1, s') \<and> live s' = []"
proof -
  let ?s = "fresh_guest [Some 0x1000, None, Some 0x4000] ()"
  obtain s' where r: "pcie_vip_run_config dead_bus 100 of_nat (sample_config 16 1) ?s = Some (- ENOMEM, sample_config 16 1, s')"
    using run_config_ungranted [of "sample_config 16 1" ?s dead_bus 100 of_nat]
    by (auto simp: valid_config_def sample_config_def granted_def fresh_guest_def)
  from run_releases_resources [OF r] r show ?thesis by (simp add: fresh_guest_def)
qed



text \<open>
  C35: a device that never interrupts cannot hang the caller. If no register access and no sleep delivers an
  interrupt, every run that gets its buffers and the lock returns ETIMEDOUT with no iteration completed,
  after at most 50 status polls and five seconds.
\<close>

theorem silent_device_times_out:
  assumes "silent bus" "valid_config cfg" "granted s = Some b" "\<not> run_lock (vip s)"
  shows "\<exists>cfg' s'. pcie_vip_run_config bus HZ ktime cfg s = Some (- ETIMEDOUT, cfg', s') \<and>
    cfg_completed cfg' = 0 \<and> cfg_last_status cfg' = 110 \<and> live s' = live s"
  using assms(2-4) silent_iteration [OF assms(1)] by (rule first_iteration_timeout)

theorem silent_device_times_out_witness:
  "\<exists>cfg' s'. pcie_vip_run_config dead_bus 100 of_nat (sample_config 16 2) (fresh_guest sample_grants ()) = Some (- ETIMEDOUT, cfg', s') \<and>
     cfg_completed cfg' = 0 \<and> cfg_last_status cfg' = 110"
  using silent_device_times_out [OF dead_bus_silent, of "sample_config 16 2" "fresh_guest sample_grants ()" _ 100 of_nat]
  by (auto simp: valid_config_def sample_config_def granted_def fresh_guest_def sample_grants_def new_vip_def)

section \<open>Properties of probe and remove\<close>

text \<open>The calls before the interrupt set-up that can fail.\<close>

definition probe_enabled :: "probe_env \<Rightarrow> bool" where
  "probe_enabled e \<longleftrightarrow> pe_kzalloc e \<and> pe_enable e = 0 \<and> pe_iomap e = 0 \<and> pe_table e \<and> (pe_mask64 e = 0 \<or> pe_mask32 e = 0)"

definition probe_armed :: "probe_env \<Rightarrow> bool" where
  "probe_armed e \<longleftrightarrow> probe_enabled e \<and> 0 \<le> pe_vectors e \<and> pe_irq e = 0"

text \<open>The state at the allocation of the probe's buffers.\<close>

definition armed_guest :: "'d guest \<Rightarrow> 'd guest" where
  "armed_guest s = s\<lparr> vip := new_vip\<lparr>bar0 := True\<rparr>,
     pci := (pci s)\<lparr>enabled := True, regions := True, bus_master := True, irq_vectors := True, irq_requested := True\<rparr> \<rparr>"

lemma probe_armed_eq: "probe_armed e \<Longrightarrow> pcie_vip_probe e s = probe_buffers e (armed_guest s)"
  by (auto simp: probe_armed_def probe_enabled_def pcie_vip_probe_def probe_interrupts_def armed_guest_def set_pci_def Let_def)

lemma probe_unarmed:
  assumes "\<not> probe_armed e" "pcie_vip_probe e s = (ret, s')" "pci s = idle_pci" "\<not> misc_registered (vip s)"
  shows "ret \<noteq> 0 \<and> live s' = live s \<and> \<not> misc_registered (vip s') \<and> \<not> irq_vectors (pci s') \<and> \<not> irq_requested (pci s') \<and> \<not> dangling_irq (pci s')"
  using assms
  by (auto simp: probe_armed_def probe_enabled_def pcie_vip_probe_def probe_interrupts_def err_vectors_def pci_free_irq_vectors_def
      set_pci_def idle_pci_def new_vip_def errnos Let_def split: if_splits)

text \<open>The two buffers of the probe, if they are granted.\<close>

definition probe_granted :: "'d guest \<Rightarrow> (u64 \<times> u64) option" where
  "probe_granted s = (case grants s of Some a # Some b # _ \<Rightarrow> Some (a, b) | _ \<Rightarrow> None)"

lemma probe_buffers_ok:
  assumes "probe_granted s = Some (a, b)" "pe_misc e = 0"
  shows "probe_buffers e s = (0, s\<lparr> grants := drop 2 (grants s), live := (b, 16) # (a, 64) # live s,
    vip := (vip s)\<lparr> vip_cmd := Some a, vip_completion := Some b, misc_registered := True \<rparr> \<rparr>)"
  using assms by (auto simp: probe_granted_def probe_buffers_def split: list.splits option.splits)

lemma probe_buffers_fail:
  assumes "\<not> (\<exists>a b. probe_granted s = Some (a, b) \<and> pe_misc e = 0)" "probe_buffers e s = (ret, s')"
  shows "ret \<noteq> 0 \<and> live s' = live s \<and> misc_registered (vip s') = misc_registered (vip s) \<and>
    pci s' = (pci s)\<lparr>irq_vectors := False, dangling_irq := dangling_irq (pci s) \<or> irq_vectors (pci s) \<and> irq_requested (pci s)\<rparr>"
proof -
  obtain p s1 where a1: "dma_alloc_coherent 64 s = (p, s1)" by fastforce
  obtain q s2 where a2: "dma_alloc_coherent 16 s1 = (q, s2)" by fastforce
  let ?s3 = "s2\<lparr>vip := (vip s2)\<lparr>vip_cmd := p, vip_completion := q\<rparr>\<rparr>"
  note defs = err_dma_def err_vectors_def pci_free_irq_vectors_def set_pci_def free_if_def dma_free_coherent_def errnos probe_granted_def
  from assms(2) have r: "(if p = None \<or> q = None then err_dma (- ENOMEM) ?s3 else if pe_misc e \<noteq> 0 then err_dma (pe_misc e) ?s3
      else (0, ?s3\<lparr>vip := (vip ?s3)\<lparr>misc_registered := True\<rparr>\<rparr>)) = (ret, s')"
    by (simp only: probe_buffers_def a1 a2 Let_def prod.case)
  show ?thesis
    by (cases rule: alloc_cases [OF a1]; cases rule: alloc_cases [OF a2])
      (use r assms(1) in \<open>auto simp: defs split: if_splits\<close>)
qed

lemma bind_driver_success:
  assumes "probe_armed e" "probe_granted s = Some (a, b)" "pe_misc e = 0"
  shows "bind_driver e s = (0, (armed_guest s)\<lparr> grants := drop 2 (grants s), live := (b, 16) # (a, 64) # live s,
    vip := new_vip\<lparr> bar0 := True, vip_cmd := Some a, vip_completion := Some b, misc_registered := True \<rparr> \<rparr>)"
proof -
  have g: "probe_granted (armed_guest s) = Some (a, b)" using assms(2) by (simp add: probe_granted_def armed_guest_def)
  show ?thesis
    using probe_buffers_ok [OF g assms(3)] assms(1) by (simp add: bind_driver_def probe_armed_eq) (simp add: armed_guest_def)
qed

lemma bind_driver_failure:
  assumes "\<not> (probe_armed e \<and> probe_granted s \<noteq> None \<and> pe_misc e = 0)" "bind_driver e s = (ret, s')"
    and "pci s = idle_pci" "\<not> misc_registered (vip s)"
  shows "ret \<noteq> 0 \<and> live s' = live s \<and> \<not> misc_registered (vip s') \<and> \<not> irq_vectors (pci s') \<and> \<not> irq_requested (pci s') \<and>
    \<not> enabled (pci s') \<and> \<not> regions (pci s') \<and> (dangling_irq (pci s') \<longleftrightarrow> probe_armed e)"
proof -
  obtain r s1 where p: "pcie_vip_probe e s = (r, s1)" by fastforce
  have 1: "r \<noteq> 0 \<and> live s1 = live s \<and> \<not> misc_registered (vip s1) \<and> \<not> irq_vectors (pci s1) \<and> (dangling_irq (pci s1) \<longleftrightarrow> probe_armed e)"
  proof (cases "probe_armed e")
    case False
    with probe_unarmed [OF False p assms(3,4)] show ?thesis by simp
  next
    case True
    have g: "probe_granted (armed_guest s) = probe_granted s" by (simp add: probe_granted_def armed_guest_def)
    with True assms(1) p probe_buffers_fail [of "armed_guest s" e r s1] show ?thesis
      by (auto simp: probe_armed_eq armed_guest_def new_vip_def)
  qed
  with p assms(2) show ?thesis by (auto simp: bind_driver_def release_managed_def set_pci_def)
qed


definition good_probe :: probe_env where
  "good_probe = \<lparr> pe_kzalloc = True, pe_enable = 0, pe_iomap = 0, pe_table = True, pe_mask64 = - 5, pe_mask32 = 0,
     pe_vectors = 1, pe_irq = 0, pe_misc = 0 \<rparr>"


text \<open>
  Unbinding undoes binding. After a successful bind, removal frees exactly the two buffers of the probe,
  deregisters the misc device and frees the vectors only after the handler is gone, so no interrupt is ever
  left on a freed vector.
\<close>

theorem unbind_undoes_bind:
  assumes "bind_driver e s = (0, s')" "pci s = idle_pci" "\<not> misc_registered (vip s)"
  shows "live (unbind_driver s') = live s \<and> \<not> misc_registered (vip (unbind_driver s')) \<and>
    pci (unbind_driver s') = idle_pci\<lparr>bus_master := True\<rparr>"
proof -
  have ok: "probe_armed e \<and> probe_granted s \<noteq> None \<and> pe_misc e = 0"
    using bind_driver_failure [OF _ assms] by blast
  then obtain a b where "probe_granted s = Some (a, b)" by auto
  with ok assms(1) bind_driver_success [of e s a b] assms(2) show ?thesis
    by (auto simp: unbind_driver_def pcie_vip_remove_def release_managed_def pci_free_irq_vectors_def set_pci_def
        free_if_def dma_free_coherent_def armed_guest_def idle_pci_def)
qed

theorem unbind_undoes_bind_witness:
  "\<exists>s'. bind_driver good_probe (fresh_guest sample_grants ()) = (0, s') \<and> live s' \<noteq> [] \<and> live (unbind_driver s') = []"
proof -
  obtain s' where r: "bind_driver good_probe (fresh_guest sample_grants ()) = (0, s')" "live s' \<noteq> []"
    using bind_driver_success [of good_probe "fresh_guest sample_grants ()" "0x1000" "0x2000"]
    by (auto simp: fresh_guest_def good_probe_def probe_armed_def probe_enabled_def probe_granted_def sample_grants_def)
  from unbind_undoes_bind [OF r(1)] r show ?thesis by (auto simp: fresh_guest_def new_vip_def)
qed

text \<open>
  A probe that fails late frees the vectors under a live handler. Once \<open>devm_request_irq\<close> has
  succeeded, every failure (of one of the two allocations or of \<open>misc_register\<close>) calls
  \<open>pci_free_irq_vectors\<close> while the managed handler is still installed, which the removal path takes care to
  avoid; before that point no failure does.
\<close>

theorem failed_probe_dangling_irq:
  assumes "bind_driver e s = (ret, s')" "ret \<noteq> 0" "pci s = idle_pci" "\<not> misc_registered (vip s)"
  shows "dangling_irq (pci s') \<longleftrightarrow> probe_armed e"
proof -
  have "\<not> (probe_armed e \<and> probe_granted s \<noteq> None \<and> pe_misc e = 0)"
    using assms(1,2) bind_driver_success [of e s] by fastforce
  from bind_driver_failure [OF this assms(1,3,4)] show ?thesis by blast
qed

theorem failed_probe_dangling_irq_witness:
  "\<exists>s'. bind_driver (good_probe\<lparr>pe_misc := - 12\<rparr>) (fresh_guest sample_grants ()) = (- 12, s') \<and> dangling_irq (pci s')"
proof -
  obtain s' where r: "bind_driver (good_probe\<lparr>pe_misc := - 12\<rparr>) (fresh_guest sample_grants ()) = (- 12, s')"
    by (auto simp: bind_driver_def probe_armed_eq probe_armed_def probe_enabled_def good_probe_def probe_buffers_def
        armed_guest_def fresh_guest_def sample_grants_def err_dma_def err_vectors_def)
  from failed_probe_dangling_irq [OF r] r show ?thesis
    by (auto simp: fresh_guest_def new_vip_def probe_armed_def probe_enabled_def good_probe_def)
qed

end
