(* ===== verification/Guest_Tools.thy ===== *)
theory Guest_Tools
  imports Guest_Driver
begin

text \<open>
  The guest's user programs: the BAR access utility (\<open>guest/pcie-vip/user/pcie-vip-pcimem.c\<close>) and the front
  end of the driver's DMA test (\<open>guest/pcie-vip/user/pcie-vip-run.c\<close>).

  \<open>strtoul\<close> and \<open>strtoull\<close> with base 0 are modelled as the C standard describes them, for 64-bit \<open>unsigned
  long\<close>. The answers of the operating system (files, mappings, clocks, \<open>ioctl\<close>) are arguments; the system
  calls a program makes on the device are recorded as events. \<open>pcie-vip-run\<close> takes the sequence of options
  that \<open>getopt_long\<close> returned. The floating-point part of its report (milliseconds and throughput) is left out.
\<close>

unbundle bit_operations_syntax

section \<open>Number parsing of the C library\<close>

definition digit_val :: "char \<Rightarrow> nat" where
  "digit_val ch = (let n = of_char ch in
     if 48 \<le> n \<and> n \<le> 57 then n - 48 else if 65 \<le> n \<and> n \<le> 90 then n - 55 else if 97 \<le> n \<and> n \<le> 122 then n - 87 else 36)"

definition base_value :: "nat \<Rightarrow> string \<Rightarrow> nat" where
  "base_value base ds = foldl (\<lambda>v ch. base * v + digit_val ch) 0 ds"

definition number_base :: "string \<Rightarrow> nat \<times> string" where
  "number_base s =
     (case s of
        z # x # d # r \<Rightarrow>
          if z = CHR ''0'' then
            if (x = CHR ''x'' \<or> x = CHR ''X'') \<and> digit_val d < 16 then (16, d # r) else (8, s)
          else (10, s)
      | z # _ \<Rightarrow> (if z = CHR ''0'' then 8 else 10, s)
      | [] \<Rightarrow> (10, s))"

definition strip_sign :: "string \<Rightarrow> bool \<times> string" where
  "strip_sign s = (case s of
      [] \<Rightarrow> (False, s)
    | ch # r \<Rightarrow> if ch = CHR ''-'' then (True, r) else if ch = CHR ''+'' then (False, r) else (False, s))"

text \<open>The value, the text after the number (the whole text if there is none), and whether \<open>errno\<close> is ERANGE.\<close>

definition strtoul :: "string \<Rightarrow> nat \<times> string \<times> bool" where
  "strtoul s =
     (let (neg, t) = strip_sign (dropWhile is_space s);
          (base, u) = number_base t;
          ds = takeWhile (\<lambda>ch. digit_val ch < base) u;
          rest = dropWhile (\<lambda>ch. digit_val ch < base) u;
          v = base_value base ds
      in if ds = [] then (0, s, False)
         else if 2 ^ 64 \<le> v then (2 ^ 64 - 1, rest, True)
         else (if neg then (2 ^ 64 - v) mod 2 ^ 64 else v, rest, False))"

section \<open>\<open>pcie-vip-pcimem\<close>\<close>

datatype sys_event = Open | Close | Mmap u64 u64 | Munmap u64 | BarLoad u64 nat | BarStore u64 bytes

record pcimem_env =
  pm_resource :: "(u64 \<times> u64 \<times> u64) option"
  pm_open :: bool
  pm_page_size :: int
  pm_mmap :: bool
  pm_load :: "u64 \<Rightarrow> nat \<Rightarrow> u64"

record tool_result =
  exit_code :: int
  stdout :: string
  events :: "sys_event list"

definition exit_with :: "int \<Rightarrow> sys_event list \<Rightarrow> tool_result" where
  "exit_with n es = \<lparr> exit_code = n, stdout = [], events = es \<rparr>"

definition parse_u64 :: "string \<Rightarrow> u64 option" where
  "parse_u64 text = (case strtoul text of (v, rest, erange) \<Rightarrow> if erange \<or> rest \<noteq> [] then None else Some (of_nat v))"

text \<open>The argument holds the first three numbers of the device's \<open>resource\<close> file, if it can be read.\<close>

definition bar_size :: "(u64 \<times> u64 \<times> u64) option \<Rightarrow> u64 option" where
  "bar_size r = (case r of None \<Rightarrow> None | Some (lo, hi, _) \<Rightarrow> if hi < lo then None else Some (hi - lo + 1))"

definition page_offset :: "int \<Rightarrow> u64 \<Rightarrow> u64" where
  "page_offset page_size offset = offset AND NOT (of_int page_size - 1)"

definition map_length :: "int \<Rightarrow> u64 \<Rightarrow> u64" where
  "map_length page_size offset = of_int page_size + offset - page_offset page_size offset"

definition print_value :: "nat \<Rightarrow> u64 \<Rightarrow> string" where
  "print_value nbytes v = ''0x'' @ pad_zero (nbytes * 2) (hex_string (unat v))"

definition pcimem_access :: "pcimem_env \<Rightarrow> bool \<Rightarrow> u64 \<Rightarrow> nat \<Rightarrow> u64 \<Rightarrow> tool_result" where
  "pcimem_access e is_read offset nbytes val =
     (if \<not> pm_open e then exit_with 1 []
      else if pm_page_size e \<le> 0 then exit_with 1 [Open, Close]
      else if \<not> pm_mmap e then exit_with 1 [Open, Close]
      else
        let n = map_length (pm_page_size e) offset;
            addr = page_offset (pm_page_size e) offset + (offset - page_offset (pm_page_size e) offset)
        in if is_read then
             \<lparr> exit_code = 0, stdout = print_value nbytes (take_bit (8 * nbytes) (pm_load e addr nbytes)) @ [CHR 0x0A],
               events = [Open, Mmap (page_offset (pm_page_size e) offset) n, BarLoad addr nbytes, Munmap n, Close] \<rparr>
           else
             exit_with 0 [Open, Mmap (page_offset (pm_page_size e) offset) n, BarStore addr (le_bytes nbytes val), Munmap n, Close])"

text \<open>\<open>main\<close>; the arguments are those after the program's name.\<close>

definition pcimem_main :: "pcimem_env \<Rightarrow> string list \<Rightarrow> tool_result" where
  "pcimem_main e args =
     (if length args \<noteq> 4 \<and> length args \<noteq> 5 then exit_with 2 []
      else if args ! 1 \<noteq> ''read'' \<and> args ! 1 \<noteq> ''write'' then exit_with 2 []
      else
        case (parse_u64 (args ! 2), parse_u64 (args ! 3), if length args = 5 then parse_u64 (args ! 4) else Some 0) of
          (Some offset, Some width, Some val) \<Rightarrow>
            if width \<noteq> 8 \<and> width \<noteq> 16 \<and> width \<noteq> 32 \<and> width \<noteq> 64 then exit_with 2 []
            else
              let nbytes = width div 8
              in if offset mod nbytes \<noteq> 0 then exit_with 2 []
                 else
                   (case bar_size (pm_resource e) of
                      None \<Rightarrow> exit_with 1 []
                    | Some bsize \<Rightarrow>
                        if offset > bsize \<or> nbytes > bsize - offset then exit_with 1 []
                        else if length args = 4 \<and> args ! 1 \<noteq> ''read'' then exit_with 2 []
                        else if length args = 5 \<and> args ! 1 \<noteq> ''write'' then exit_with 2 []
                        else pcimem_access e (args ! 1 = ''read'') offset (unat nbytes) val)
        | _ \<Rightarrow> exit_with 2 [])"

section \<open>\<open>pcie-vip-run\<close>\<close>

datatype run_option = Opt_length string | Opt_iterations string | Opt_interactive | Opt_verbose | Opt_help | Opt_unknown

record run_settings =
  rs_length :: u32
  rs_iterations :: u32
  rs_interactive :: bool
  rs_verbose :: bool

datatype run_outcome =
  Usage int
| Invalid
| Open_failed
| Ioctl_failed
| Pass
| Pass_report u32 u32 u32 u64 u64

fun run_exit :: "run_outcome \<Rightarrow> int" where
  "run_exit (Usage n) = n"
| "run_exit Invalid = 2"
| "run_exit Open_failed = 1"
| "run_exit Ioctl_failed = 1"
| "run_exit Pass = 0"
| "run_exit (Pass_report _ _ _ _ _) = 0"

definition option_number :: "nat \<Rightarrow> string \<Rightarrow> u32 option" where
  "option_number limit optarg =
     (case strtoul optarg of (parsed, rest, erange) \<Rightarrow>
        if erange \<or> rest = optarg \<or> rest \<noteq> [] \<or> parsed < 1 \<or> limit < parsed then None else Some (of_nat parsed))"

fun run_options :: "run_option list \<Rightarrow> run_settings \<Rightarrow> run_outcome + run_settings" where
  "run_options [] st = Inr st"
| "run_options (Opt_length s # os) st =
     (case option_number 4096 s of None \<Rightarrow> Inl Invalid | Some v \<Rightarrow> run_options os (st\<lparr> rs_length := v, rs_verbose := True \<rparr>))"
| "run_options (Opt_iterations s # os) st =
     (case option_number 1024 s of None \<Rightarrow> Inl Invalid | Some v \<Rightarrow> run_options os (st\<lparr> rs_iterations := v, rs_verbose := True \<rparr>))"
| "run_options (Opt_interactive # os) st = run_options os (st\<lparr> rs_interactive := True, rs_verbose := True \<rparr>)"
| "run_options (Opt_verbose # os) st = run_options os (st\<lparr> rs_verbose := True \<rparr>)"
| "run_options (Opt_help # os) st = Inl (Usage 0)"
| "run_options (Opt_unknown # os) st = Inl (Usage 2)"

text \<open>\<open>fgets\<close> with a buffer of 64 bytes: up to 63 characters, ending after a newline; \<open>None\<close> at the end of the input.\<close>

fun line_length :: "nat \<Rightarrow> string \<Rightarrow> nat" where
  "line_length 0 s = 0"
| "line_length (Suc n) [] = 0"
| "line_length (Suc n) (ch # s) = (if ch = CHR 0x0A then 1 else Suc (line_length n s))"

definition fgets :: "string \<Rightarrow> (string \<times> string) option" where
  "fgets input = (if input = [] then None else Some (take (line_length 63 input) input, drop (line_length 63 input) input))"

definition read_u32 :: "nat \<Rightarrow> nat \<Rightarrow> string \<Rightarrow> u32 option \<times> string" where
  "read_u32 lo hi input =
     (case fgets input of
        None \<Rightarrow> (None, input)
      | Some (line, input) \<Rightarrow>
          (case strtoul line of (parsed, rest, erange) \<Rightarrow>
             (if erange \<or> rest = line \<or> parsed < lo \<or> hi < parsed then None else Some (of_nat parsed), input)))"

definition run_prompt :: "run_settings \<Rightarrow> string \<Rightarrow> run_settings option" where
  "run_prompt st input =
     (if \<not> rs_interactive st then Some st
      else
        case read_u32 1 4096 input of
          (None, _) \<Rightarrow> None
        | (Some l, input) \<Rightarrow>
            (case read_u32 1 1024 input of
               (None, _) \<Rightarrow> None
             | (Some n, _) \<Rightarrow> Some (st\<lparr> rs_length := l, rs_iterations := n \<rparr>)))"

definition wall_ns :: "u64 \<times> u64 \<Rightarrow> u64 \<times> u64 \<Rightarrow> u64" where
  "wall_ns start_time end_time = (fst end_time - fst start_time) * 1000000000 + snd end_time - snd start_time"

definition tool_config :: "run_settings \<Rightarrow> pcie_vip_run_config_t" where
  "tool_config st = \<lparr> cfg_length = rs_length st, cfg_iterations = rs_iterations st, cfg_completed = 0, cfg_last_status = 0, cfg_elapsed_ns = 0 \<rparr>"

text \<open>
  The environment of the program: whether the device node opens, the \<open>ioctl\<close> (on a state of any type; \<open>None\<close>
  while it sleeps; it returns what the structure passed to it holds afterwards), and the two clock readings as seconds and nanoseconds.
\<close>

record 'w run_env =
  re_open :: bool
  re_ioctl :: "u32 \<Rightarrow> pcie_vip_run_config_t option \<Rightarrow> 'w \<Rightarrow> (int \<times> pcie_vip_run_config_t option \<times> 'w) option"
  re_start :: "u64 \<times> u64"
  re_end :: "u64 \<times> u64"

definition run_report :: "'w run_env \<Rightarrow> run_settings \<Rightarrow> pcie_vip_run_config_t option \<Rightarrow> run_outcome" where
  "run_report e st arg =
     (let cfg = (case arg of None \<Rightarrow> tool_config st | Some cfg \<Rightarrow> cfg)
      in Pass_report (rs_length st) (rs_iterations st) (cfg_completed cfg)
           (if cfg_elapsed_ns cfg \<noteq> 0 then cfg_elapsed_ns cfg else wall_ns (re_start e) (re_end e))
           (2 * ucast (rs_length st) * ucast (rs_iterations st)))"

definition run_device :: "'w run_env \<Rightarrow> run_settings \<Rightarrow> 'w \<Rightarrow> (run_outcome \<times> 'w) option" where
  "run_device e st w =
     (if \<not> re_open e then Some (Open_failed, w)
      else
        let plain = \<not> rs_verbose st \<and> rs_length st = 64 \<and> rs_iterations st = 1
        in case (if plain then re_ioctl e PCIE_VIP_IOC_RUN None w
                 else re_ioctl e PCIE_VIP_IOC_RUN_CONFIG (Some (tool_config st)) w) of
             None \<Rightarrow> None
           | Some (ret, arg, w) \<Rightarrow>
               Some (if ret < 0 then Ioctl_failed else if \<not> rs_verbose st then Pass else run_report e st arg, w))"

definition default_settings :: run_settings where
  "default_settings = \<lparr> rs_length = 64, rs_iterations = 1, rs_interactive = False, rs_verbose = False \<rparr>"

definition run_main :: "'w run_env \<Rightarrow> run_option list \<Rightarrow> string \<Rightarrow> 'w \<Rightarrow> (run_outcome \<times> 'w) option" where
  "run_main e opts input w =
     (case run_options opts default_settings of
        Inl out \<Rightarrow> Some (out, w)
      | Inr st \<Rightarrow>
          (case run_prompt st input of
             None \<Rightarrow> Some (Invalid, w)
           | Some st \<Rightarrow> run_device e st w))"

section \<open>Facts about number parsing\<close>

lemma of_char_hex_char: "d < 16 \<Longrightarrow> of_char (hex_char d) = (if d < 10 then 48 + d else 87 + d)"
  by (simp add: hex_char_def of_char_digit_char)

lemma digit_val_hex_char [simp]: "d < 16 \<Longrightarrow> digit_val (hex_char d) = d"
  by (simp add: digit_val_def of_char_hex_char)

lemma digit_val_digit_char [simp]: "d < 10 \<Longrightarrow> digit_val (digit_char d) = d"
  by (simp add: digit_val_def of_char_digit_char)

lemma digit_zero [simp]: "digit_val (CHR ''0'') = 0"
  by (simp add: digit_val_def)

text \<open>A character that counts as a digit in some base is neither white space nor a sign.\<close>

lemma digit_not_special:
  assumes "digit_val ch < 36"
  shows "\<not> is_space ch" "ch \<noteq> CHR ''-''" "ch \<noteq> CHR ''+''"
proof -
  have "48 \<le> (of_char ch :: nat)" using assms by (auto simp: digit_val_def Let_def split: if_splits)
  then show "\<not> is_space ch" "ch \<noteq> CHR ''-''" "ch \<noteq> CHR ''+''" by (auto simp: is_space_def)
qed

lemma base_value_snoc: "base_value b (ds @ [ch]) = b * base_value b ds + digit_val ch"
  by (simp add: base_value_def)

lemma base_value_zeros: "base_value b (replicate k (CHR ''0'') @ ds) = base_value b ds"
  by (induction k) (simp_all add: base_value_def)

lemma dec_string_digits: "(\<forall>ch \<in> set (dec_string n). digit_val ch < 10) \<and> base_value 10 (dec_string n) = n"
proof (induction n rule: dec_string.induct)
  case (1 n)
  show ?case
  proof (cases "n < 10")
    case True
    then show ?thesis by (subst (1 2) dec_string.simps) (simp add: base_value_def)
  next
    case False
    with 1 have "(\<forall>ch \<in> set (dec_string (n div 10)). digit_val ch < 10) \<and> base_value 10 (dec_string (n div 10)) = n div 10" by simp
    with False show ?thesis by (subst (1 2) dec_string.simps) (simp add: base_value_snoc)
  qed
qed

lemma hex_string_digits: "(\<forall>ch \<in> set (hex_string n). digit_val ch < 16) \<and> base_value 16 (hex_string n) = n"
proof (induction n rule: hex_string.induct)
  case (1 n)
  show ?case
  proof (cases "n < 16")
    case True
    then show ?thesis by (subst (1 2) hex_string.simps) (simp add: base_value_def)
  next
    case False
    with 1 have "(\<forall>ch \<in> set (hex_string (n div 16)). digit_val ch < 16) \<and> base_value 16 (hex_string (n div 16)) = n div 16" by simp
    with False show ?thesis by (subst (1 2) hex_string.simps) (simp add: base_value_snoc)
  qed
qed

lemma dec_string_hd: "n \<noteq> 0 \<Longrightarrow> hd (dec_string n) \<noteq> CHR ''0''"
proof (induction n rule: dec_string.induct)
  case (1 n)
  show ?case
  proof (cases "n < 10")
    case True
    then have "digit_char n \<noteq> CHR ''0''" using "1.prems" by (metis digit_val_digit_char digit_zero)
    with True show ?thesis by (subst dec_string.simps) simp
  next
    case False
    with 1 show ?thesis by (subst dec_string.simps) simp
  qed
qed

lemma hex_string_not_Nil [simp]: "hex_string n \<noteq> []"
  by (subst hex_string.simps) simp

lemma strtoul_digits:
  assumes "number_base t = (base, u)" "u \<noteq> []" "\<forall>ch \<in> set u. digit_val ch < base" "base_value base u < 2 ^ 64"
    and "t \<noteq> []" "digit_val (hd t) < 36"
  shows "strtoul t = (base_value base u, [], False)"
proof -
  obtain ch r where t: "t = ch # r" using assms(5) by (cases t) auto
  have "dropWhile is_space t = t" "strip_sign t = (False, t)"
    using digit_not_special [of ch] assms(6) by (simp_all add: t strip_sign_def)
  moreover have tw: "takeWhile (\<lambda>ch. digit_val ch < base) u = u" "dropWhile (\<lambda>ch. digit_val ch < base) u = []"
    using assms(3) by simp_all
  ultimately show ?thesis using assms(1,2,4) by (simp add: strtoul_def Let_def tw del: takeWhile_eq_all_conv dropWhile_eq_Nil_conv)
qed

lemma strtoul_decimal:
  assumes "n < 2 ^ 64"
  shows "strtoul (dec_string n) = (n, [], False)"
proof (cases "n = 0")
  case True
  have z: "dec_string 0 = ''0''" by (subst dec_string.simps) code_simp
  have "number_base ''0'' = (8, ''0'')" by (simp add: number_base_def)
  from strtoul_digits [OF this] True show ?thesis by (simp add: z base_value_def)
next
  case False
  obtain ch r where t: "dec_string n = ch # r" by (cases "dec_string n") auto
  have "ch \<noteq> CHR ''0''" using dec_string_hd [OF False] t by simp
  then have "number_base (dec_string n) = (10, dec_string n)"
    unfolding t by (simp add: number_base_def split: list.split)
  moreover have "digit_val ch < 36" using dec_string_digits [of n] t by fastforce
  ultimately show ?thesis
    using strtoul_digits [of "dec_string n" 10 "dec_string n"] dec_string_digits [of n] assms by (simp add: t)
qed

lemma strtoul_hex:
  assumes "n < 2 ^ 64"
  shows "strtoul (''0x'' @ pad_zero w (hex_string n)) = (n, [], False)"
proof -
  let ?u = "pad_zero w (hex_string n)"
  have d: "\<forall>ch \<in> set ?u. digit_val ch < 16" using hex_string_digits [of n] by (auto simp: pad_zero_def)
  have v: "base_value 16 ?u = n" using hex_string_digits [of n] by (simp add: pad_zero_def base_value_zeros)
  have ne: "?u \<noteq> []" by (simp add: pad_zero_def)
  then obtain x r where u: "?u = x # r" by (cases ?u) auto
  have "number_base (''0x'' @ ?u) = (16, ?u)" using d by (simp add: u number_base_def)
  from strtoul_digits [OF this ne d] v assms show ?thesis by simp
qed

lemma strtoul_bound: "strtoul s = (v, r, er) \<Longrightarrow> v < 2 ^ 64"
  by (auto simp: strtoul_def Let_def split: prod.splits if_splits)

section \<open>Facts about \<open>pcie-vip-pcimem\<close>\<close>

lemma exit_with_simps [simp]: "exit_code (exit_with n es) = n" "stdout (exit_with n es) = []" "events (exit_with n es) = es"
  by (simp_all add: exit_with_def)

text \<open>The device is touched only after every check has passed.\<close>

lemma pcimem_main_checked:
  assumes "events (pcimem_main e args) \<noteq> []"
  obtains offset nbytes val bsize where
    "pcimem_main e args = pcimem_access e (args ! 1 = ''read'') offset (unat nbytes) val"
    "nbytes \<in> {1, 2, 4, 8}" "offset mod nbytes = 0" "bar_size (pm_resource e) = Some bsize" "offset \<le> bsize" "nbytes \<le> bsize - offset"
    "parse_u64 (args ! 2) = Some offset" "args ! 1 = ''write'' \<longrightarrow> parse_u64 (args ! 4) = Some val"
proof -
  obtain offset width val where p: "parse_u64 (args ! 2) = Some offset" "parse_u64 (args ! 3) = Some width"
      "(if length args = 5 then parse_u64 (args ! 4) else Some 0) = Some val"
    using assms by (auto simp: pcimem_main_def split: if_splits option.splits)
  obtain bsize where b: "bar_size (pm_resource e) = Some bsize"
    using assms p by (auto simp: pcimem_main_def Let_def split: if_splits option.splits)
  have w: "width = 8 \<or> width = 16 \<or> width = 32 \<or> width = 64"
    using assms p by (auto simp: pcimem_main_def split: if_splits option.splits)
  have c: "offset mod (width div 8) = 0" "\<not> offset > bsize" "\<not> width div 8 > bsize - offset"
      "args ! 1 = ''read'' \<or> args ! 1 = ''write''" "length args = 4 \<longrightarrow> args ! 1 = ''read''" "length args = 5 \<longrightarrow> args ! 1 = ''write''"
      "length args = 4 \<or> length args = 5"
    using assms p b w by (auto simp: pcimem_main_def Let_def split: if_splits)
  have m: "pcimem_main e args = pcimem_access e (args ! 1 = ''read'') offset (unat (width div 8)) val"
    using c p b w unfolding pcimem_main_def Let_def by (auto simp del: not_less)
  show ?thesis
    by (rule that [OF m _ c(1) b _ _ p(1)]) (use c w p in auto)
qed

lemma bar_address: "page_offset ps offset + (offset - page_offset ps offset) = offset"
  by simp

lemma in_page_offset:
  assumes "ps = 2 ^ k" "k < 63"
  shows "offset - page_offset ps offset = take_bit k offset"
proof -
  have m: "(of_int ps - 1 :: u64) = mask k" using assms(1) by (simp add: mask_eq_exp_minus_1)
  have "offset = page_offset ps offset OR take_bit k offset"
    unfolding page_offset_def m by (auto intro!: bit_word_eqI simp: bit_simps)
  moreover have "page_offset ps offset AND take_bit k offset = 0"
    unfolding page_offset_def m by (auto intro!: bit_word_eqI simp: bit_simps)
  ultimately have "offset = page_offset ps offset + take_bit k offset" by (metis disjunctive_add_eq_or)
  then show ?thesis by (metis add_diff_cancel_left')
qed

lemma aligned_in_page:
  assumes "n dvd (x :: nat)" "n dvd p" "0 < p"
  shows "x mod p + n \<le> p"
proof -
  obtain a b where ab: "x mod p = n * a" "p = n * b" using assms by (meson dvdE dvd_mod)
  then have "n * a < n * b" using assms(3) by (metis mod_less_divisor)
  then have "Suc a \<le> b" by simp
  then have "n * Suc a \<le> n * b" by (rule mult_le_mono2)
  with ab show ?thesis by simp
qed

lemma width_dvd_page: "n \<in> {1, 2, 4, 8 :: nat} \<Longrightarrow> 3 \<le> k \<Longrightarrow> n dvd 2 ^ k"
proof -
  assume n: "n \<in> {1, 2, 4, 8}" and k: "3 \<le> k"
  from n obtain j where j: "n = 2 ^ j" "j \<le> 3"
    by (auto intro: that [of 0] that [of 1] that [of 2] that [of 3])
  with k show "n dvd 2 ^ k" by (simp add: le_imp_power_dvd)
qed

lemma word_unat_of_nat_small: "n < 2 ^ 64 \<Longrightarrow> unat (of_nat n :: u64) = n"
  by (simp add: unat_of_nat)

lemma parse_u64_decimal: "parse_u64 (dec_string (unat v)) = Some v"
  using strtoul_decimal [of "unat v"] unsigned_less [of v, where 'a = nat] by (simp add: parse_u64_def)

lemma parse_u64_printed: "parse_u64 (print_value n v) = Some v"
  using strtoul_hex [of "unat v" "n * 2"] unsigned_less [of v, where 'a = nat] by (simp add: parse_u64_def print_value_def)

lemma unat_take_bit: "unat (take_bit k (x :: u64)) = unat x mod 2 ^ k"
  by (metis take_bit_eq_mod unsigned_take_bit_eq)

lemma map_length_exact:
  assumes "ps = 2 ^ k" "k < 63"
  shows "unat (map_length ps offset) = 2 ^ k + unat offset mod 2 ^ k"
proof -
  have "map_length ps offset = 2 ^ k + take_bit k offset"
    using in_page_offset [OF assms, of offset] assms(1) by (simp add: map_length_def)
  moreover have "unat (2 ^ k :: u64) = 2 ^ k"
  proof -
    have "(2 ^ k :: nat) < 2 ^ 64" using assms(2) by (intro power_strict_increasing) simp_all
    then have "unat (of_nat (2 ^ k) :: u64) = 2 ^ k" by (intro word_unat_of_nat_small)
    then show ?thesis by simp
  qed
  moreover have "(2 ^ k :: nat) + unat offset mod 2 ^ k < 2 ^ 64"
  proof -
    have "unat offset mod 2 ^ k < (2 ^ k :: nat)" by simp
    moreover have "(2 ^ k :: nat) < 2 ^ 63" using assms(2) by (intro power_strict_increasing) simp_all
    moreover have "(2 :: nat) ^ 64 = 2 ^ 63 + 2 ^ 63" by simp
    ultimately show ?thesis by linarith
  qed
  ultimately show ?thesis by (simp add: unat_word_ariths unat_take_bit)
qed

definition accesses :: "sys_event \<Rightarrow> (u64 \<times> nat) option" where
  "accesses ev = (case ev of BarLoad a n \<Rightarrow> Some (a, n) | BarStore a bs \<Rightarrow> Some (a, length bs) | _ \<Rightarrow> None)"

lemma pcimem_access_event:
  assumes "ev \<in> set (events (pcimem_access e is_read offset n val))" "accesses ev = Some (a, m)"
  shows "a = offset \<and> m = n"
  using assms by (auto simp: pcimem_access_def accesses_def Let_def split: if_splits)

section \<open>Properties of \<open>pcie-vip-pcimem\<close>\<close>

definition sample_pcimem :: pcimem_env where
  "sample_pcimem = \<lparr> pm_resource = Some (0xfe000000, 0xfe00ffff, 0x40200), pm_open = True, pm_page_size = 4096, pm_mmap = True,
     pm_load = (\<lambda>a n. 0x12345678) \<rparr>"

text \<open>Arguments as a user would type them, with numbers printed as \<open>pcie-vip-pcimem\<close> prints them or in decimal.\<close>

definition write_args :: "u64 \<Rightarrow> u64 \<Rightarrow> u64 \<Rightarrow> string list" where
  "write_args offset width val = [''0000:01:00.0'', ''write'', print_value 2 offset, dec_string (unat width), print_value 4 val]"

definition read_args :: "u64 \<Rightarrow> u64 \<Rightarrow> string list" where
  "read_args offset width = [''0000:01:00.0'', ''read'', print_value 2 offset, dec_string (unat width)]"

lemma pcimem_well_formed:
  assumes "width \<in> {8, 16, 32, 64}" "offset mod (width div 8) = 0" "bar_size (pm_resource e) = Some bsize"
    and "offset \<le> bsize" "width div 8 \<le> bsize - offset"
  shows "pcimem_main e (write_args offset width val) = pcimem_access e False offset (unat (width div 8)) val"
    "pcimem_main e (read_args offset width) = pcimem_access e True offset (unat (width div 8)) 0"
  unfolding pcimem_main_def write_args_def read_args_def
  using assms by (simp_all add: parse_u64_decimal parse_u64_printed not_less Let_def) auto

lemma sample_bar_size: "bar_size (pm_resource sample_pcimem) = Some 0x10000"
  by (simp add: sample_pcimem_def bar_size_def)

lemma sample_mapping: "page_offset 4096 0x100 = 0" "map_length 4096 0x100 = 0x1100"
  by (simp_all add: page_offset_def map_length_def)

text \<open>
  C39: the utility touches only the BAR. Every load or store it makes has 1, 2, 4 or 8 bytes, is aligned to
  its size, lies inside the BAR that the resource file describes, and lies inside the first page of the
  mapping, for every power-of-two page size from 8 bytes up and whatever the arguments are.
\<close>

theorem pcimem_access_in_bar:
  assumes "ev \<in> set (events (pcimem_main e args))" "accesses ev = Some (a, n)"
    and "bar_size (pm_resource e) = Some bsize" "pm_page_size e = 2 ^ k" "3 \<le> k" "k < 63"
  shows "n \<in> {1, 2, 4, 8} \<and> n dvd unat a \<and> unat a + n \<le> unat bsize \<and>
    unat (a - page_offset (pm_page_size e) a) + n \<le> 2 ^ k \<and> 2 ^ k \<le> unat (map_length (pm_page_size e) a)"
proof -
  from assms(1) have "events (pcimem_main e args) \<noteq> []" by auto
  then obtain offset nbytes val where
      m: "pcimem_main e args = pcimem_access e (args ! 1 = ''read'') offset (unat nbytes) val"
      and nb: "nbytes \<in> {1, 2, 4, 8}" "offset mod nbytes = 0" "offset \<le> bsize" "nbytes \<le> bsize - offset"
    by (rule pcimem_main_checked) (use assms(3) in auto)
  have a: "a = offset" "n = unat nbytes" using pcimem_access_event [of ev] assms(1,2) m by auto
  have n: "n \<in> {1, 2, 4, 8}" using nb(1) a by auto
  have dvd: "n dvd unat a" using nb(2) a by (metis dvd_eq_mod_eq_0 unat_0 unat_mod)
  have "unat a + n \<le> unat bsize" using nb(3,4) a by (simp add: word_le_nat_alt unat_sub)
  moreover have "unat (a - page_offset (pm_page_size e) a) = unat a mod 2 ^ k"
    using in_page_offset [OF assms(4,6), of a] by (simp add: unat_take_bit)
  moreover have "unat a mod 2 ^ k + n \<le> 2 ^ k" using dvd width_dvd_page [OF n assms(5)] by (intro aligned_in_page) simp_all
  moreover have "2 ^ k \<le> unat (map_length (pm_page_size e) a)" using map_length_exact [OF assms(4,6), of a] by simp
  ultimately show ?thesis using n dvd by simp
qed

theorem pcimem_access_in_bar_witness:
  "BarLoad 0x100 4 \<in> set (events (pcimem_main sample_pcimem (read_args 0x100 32))) \<and> unat (0x100 :: u64) + 4 \<le> 0x10000"
proof -
  have "pcimem_main sample_pcimem (read_args 0x100 32) = pcimem_access sample_pcimem True 0x100 4 0"
    using pcimem_well_formed(2) [of 32 "0x100" sample_pcimem, OF _ _ sample_bar_size] by simp
  then have "BarLoad 0x100 4 \<in> set (events (pcimem_main sample_pcimem (read_args 0x100 32)))"
    by (simp add: pcimem_access_def Let_def sample_pcimem_def sample_mapping)
  then show ?thesis
    using pcimem_access_in_bar [of "BarLoad 0x100 4" sample_pcimem "read_args 0x100 32" "0x100" 4 "0x10000" 12, OF _ _ sample_bar_size]
    by (simp add: accesses_def sample_pcimem_def)
qed

text \<open>
  A well-formed write does what it says. With an aligned offset and a width of 8, 16, 32 or 64 bits that
  fit the BAR, and every system call succeeding, the utility exits with 0 after storing exactly the low
  bytes of the value, little-endian, at the offset, and releases the mapping and the descriptor.
\<close>

theorem pcimem_write_exact:
  assumes "width \<in> {8, 16, 32, 64}" "offset mod (width div 8) = 0" "bar_size (pm_resource e) = Some bsize"
    and "offset \<le> bsize" "width div 8 \<le> bsize - offset" "pm_open e" "0 < pm_page_size e" "pm_mmap e"
  shows "exit_code (pcimem_main e (write_args offset width val)) = 0 \<and>
    events (pcimem_main e (write_args offset width val)) =
      [Open, Mmap (page_offset (pm_page_size e) offset) (map_length (pm_page_size e) offset),
       BarStore offset (le_bytes (unat (width div 8)) val), Munmap (map_length (pm_page_size e) offset), Close]"
  using pcimem_well_formed(1) [OF assms(1-5)] assms(6-8) by (simp add: pcimem_access_def Let_def)

theorem pcimem_write_exact_witness:
  "events (pcimem_main sample_pcimem (write_args 0x100 32 0x12345678)) =
     [Open, Mmap 0 0x1100, BarStore 0x100 (le_bytes 4 (0x12345678 :: u64)), Munmap 0x1100, Close]"
  using pcimem_write_exact [of 32 "0x100" sample_pcimem, OF _ _ sample_bar_size] sample_mapping by (simp add: sample_pcimem_def)

text \<open>
  What a read prints can be given back. The line printed by a successful read, without its newline,
  parses (by the utility's own \<open>parse_u64\<close>) to the value loaded, and it has two digits per byte.
\<close>

theorem pcimem_read_roundtrip:
  assumes "width \<in> {8, 16, 32, 64}" "offset mod (width div 8) = 0" "bar_size (pm_resource e) = Some bsize"
    and "offset \<le> bsize" "width div 8 \<le> bsize - offset" "pm_open e" "0 < pm_page_size e" "pm_mmap e"
  shows "parse_u64 (butlast (stdout (pcimem_main e (read_args offset width))))
     = Some (take_bit (unat width) (pm_load e offset (unat (width div 8))))"
proof -
  have "8 * unat (width div 8) = unat width" using assms(1) by auto
  then show ?thesis
    using pcimem_well_formed(2) [OF assms(1-5)] assms(6-8) by (simp add: pcimem_access_def Let_def parse_u64_printed)
qed

theorem pcimem_read_roundtrip_witness:
  "parse_u64 (butlast (stdout (pcimem_main sample_pcimem (read_args 0x100 16)))) = Some 0x5678"
  using pcimem_read_roundtrip [of 16 "0x100" sample_pcimem, OF _ _ sample_bar_size] by (simp add: sample_pcimem_def)

text \<open>
  The mapping of the last page is too long. The utility maps a page plus the offset inside the page; for
  an offset inside the last page of the BAR (other than its start) the mapping ends after the BAR, although
  the access itself is in range.
\<close>

theorem last_page_mapping_exceeds_bar:
  fixes bsize :: u64
  assumes "ps = 2 ^ k" "k < 63" "unat bsize = unat (page_offset ps offset) + 2 ^ k" "page_offset ps offset \<noteq> offset"
  shows "unat bsize < unat (page_offset ps offset) + unat (map_length ps offset)"
proof -
  have "take_bit k offset \<noteq> 0" using in_page_offset [OF assms(1,2), of offset] assms(4) by auto
  then have "0 < unat offset mod 2 ^ k" by (metis neq0_conv unat_eq_0 unat_take_bit)
  with map_length_exact [OF assms(1,2), of offset] assms(3) show ?thesis by simp
qed

theorem last_page_mapping_exceeds_bar_witness:
  "unat (0x10000 :: u64) < unat (page_offset 4096 0xF004) + unat (map_length 4096 0xF004)"
  using last_page_mapping_exceeds_bar [of 4096 12 "0x10000" "0xF004"] by (simp add: page_offset_def)

text \<open>An empty argument is taken for the number 0.\<close>

lemma empty_number_accepted: "parse_u64 [] = Some 0" "option_number limit [] = None"
  by (simp_all add: parse_u64_def option_number_def strtoul_def strip_sign_def number_base_def)

section \<open>Facts about \<open>pcie-vip-run\<close>\<close>

definition settings_ok :: "run_settings \<Rightarrow> bool" where
  "settings_ok st \<longleftrightarrow> 1 \<le> rs_length st \<and> rs_length st \<le> 4096 \<and> 1 \<le> rs_iterations st \<and> rs_iterations st \<le> 1024 \<and>
     (rs_verbose st \<or> rs_length st = 64 \<and> rs_iterations st = 1 \<and> \<not> rs_interactive st)"

lemma small_number: "1 \<le> n \<Longrightarrow> n \<le> limit \<Longrightarrow> limit \<le> 4096 \<Longrightarrow> 1 \<le> (of_nat n :: u32) \<and> (of_nat n :: u32) \<le> of_nat limit"
  by (simp add: word_le_nat_alt unat_of_nat)

lemma option_number_range: "option_number limit s = Some v \<Longrightarrow> limit \<le> 4096 \<Longrightarrow> 1 \<le> v \<and> v \<le> of_nat limit"
  using small_number by (auto simp: option_number_def not_less split: prod.splits if_splits)

lemma read_u32_range: "read_u32 1 hi s = (Some v, s') \<Longrightarrow> hi \<le> 4096 \<Longrightarrow> 1 \<le> v \<and> v \<le> of_nat hi"
  using small_number by (auto simp: read_u32_def not_less split: prod.splits if_splits option.splits)

lemma run_options_ok: "run_options os st = Inr st' \<Longrightarrow> settings_ok st \<Longrightarrow> settings_ok st'"
proof (induction os st rule: run_options.induct)
  case (2 s os st)
  then show ?case using option_number_range [of 4096 s] by (auto simp: settings_ok_def split: option.splits)
next
  case (3 s os st)
  then show ?case using option_number_range [of 1024 s] by (auto simp: settings_ok_def split: option.splits)
qed (auto simp: settings_ok_def)

lemma run_prompt_ok:
  assumes "run_prompt st input = Some st'" "settings_ok st"
  shows "settings_ok st'"
  using assms read_u32_range [of 4096] read_u32_range [of 1024]
  by (fastforce simp: run_prompt_def settings_ok_def split: if_splits prod.splits option.splits)

lemma default_settings_ok: "settings_ok default_settings"
  by (simp add: settings_ok_def default_settings_def)

text \<open>The settings with which the program reaches the device.\<close>

definition final_settings :: "run_option list \<Rightarrow> string \<Rightarrow> run_settings option" where
  "final_settings opts input = (case run_options opts default_settings of Inl _ \<Rightarrow> None | Inr st \<Rightarrow> run_prompt st input)"

lemma final_settings_ok: "final_settings opts input = Some st \<Longrightarrow> settings_ok st"
  using run_options_ok run_prompt_ok default_settings_ok by (auto simp: final_settings_def split: sum.splits)

lemma run_main_device: "final_settings opts input = Some st \<Longrightarrow> run_main e opts input w = run_device e st w"
  by (auto simp: final_settings_def run_main_def split: sum.splits)

section \<open>Properties of \<open>pcie-vip-run\<close>\<close>

text \<open>
  C40: the program never asks for what the driver refuses. Whatever options and interactive input it gets, if
  it reaches the device, length and iterations are in the driver's range and not zero, so the configuration
  it passes is valid and taken as it is; and the plain \<open>ioctl\<close> without a structure is used exactly when no
  report is wanted.
\<close>

theorem tool_config_accepted:
  assumes "run_options opts default_settings = Inr st" "run_prompt st input = Some st'"
  shows "valid_config (tool_config st') \<and> effective_length (tool_config st') = rs_length st' \<and>
    effective_iterations (tool_config st') = rs_iterations st' \<and>
    (\<not> rs_verbose st' \<longrightarrow> rs_length st' = 64 \<and> rs_iterations st' = 1)"
proof -
  have "settings_ok st'" using assms by (intro final_settings_ok [of opts input]) (simp add: final_settings_def)
  moreover from this have "rs_length st' \<noteq> 0" "rs_iterations st' \<noteq> 0" by (auto simp: settings_ok_def)
  ultimately show ?thesis
    by (auto simp: valid_config_def tool_config_def effective_length_def effective_iterations_def settings_ok_def)
qed

theorem tool_config_accepted_witness:
  "valid_config (tool_config (default_settings\<lparr>rs_length := 4096, rs_verbose := True\<rparr>))"
proof -
  have "option_number 4096 (dec_string 4096) = Some 4096" using dec_string_not_Nil [of 4096] by (simp add: option_number_def strtoul_decimal del: dec_string_not_Nil)
  then have "run_options [Opt_length (dec_string 4096)] default_settings = Inr (default_settings\<lparr>rs_length := 4096, rs_verbose := True\<rparr>)"
    by simp
  from tool_config_accepted [OF this, of "[]"] show ?thesis by (simp add: run_prompt_def default_settings_def)
qed

text \<open>
  The elapsed time falls back to the wall clock without wrapping. If the end is not before the start, the
  unsigned arithmetic on seconds and nanoseconds gives the difference of the two times, also when the
  nanoseconds of the end are smaller.
\<close>

theorem wall_ns_exact:
  assumes "1000000000 * unat s0 + unat n0 \<le> 1000000000 * unat s1 + unat n1"
    and "1000000000 * unat s1 + unat n1 - (1000000000 * unat s0 + unat n0) < 2 ^ 64"
  shows "unat (wall_ns (s0, n0) (s1, n1)) = 1000000000 * unat s1 + unat n1 - (1000000000 * unat s0 + unat n0)"
proof -
  let ?d = "1000000000 * unat s1 + unat n1 - (1000000000 * unat s0 + unat n0)"
  have "wall_ns (s0, n0) (s1, n1) = of_nat (1000000000 * unat s1 + unat n1) - of_nat (1000000000 * unat s0 + unat n0)"
    by (simp add: wall_ns_def algebra_simps)
  also have "\<dots> = of_nat ?d" using assms(1) by (simp add: of_nat_diff)
  finally show ?thesis using word_unat_of_nat_small [OF assms(2)] by simp
qed

theorem wall_ns_exact_witness: "unat (wall_ns (5, 999999999) (6, 1)) = 2"
  using wall_ns_exact [of 5 999999999 6 1] by simp

lemma report_bytes_exact:
  assumes "settings_ok st"
  shows "unat (2 * ucast (rs_length st) * ucast (rs_iterations st) :: u64) = 2 * unat (rs_length st) * unat (rs_iterations st)"
proof -
  have l: "unat (rs_length st) \<le> 4096" "unat (rs_iterations st) \<le> 1024" using assms by (auto simp: settings_ok_def word_le_nat_alt)
  then have "unat (rs_length st) * unat (rs_iterations st) \<le> 4096 * 1024" by (rule mult_le_mono)
  moreover have "2 * x < 2 ^ 64" if "x \<le> 4096 * 1024" for x :: nat using that by simp
  ultimately have p: "2 * (unat (rs_length st) * unat (rs_iterations st)) < 2 ^ 64" by blast
  have "2 * ucast (rs_length st) * ucast (rs_iterations st) = (of_nat (2 * unat (rs_length st) * unat (rs_iterations st)) :: u64)"
    by simp
  moreover have "2 * unat (rs_length st) * unat (rs_iterations st) < 2 ^ 64" using p by (simp only: mult.assoc)
  ultimately show ?thesis by (simp only: word_unat_of_nat_small)
qed

end
