(* ===== verification/Guest_System.thy ===== *)
theory Guest_System
  imports Guest_Driver Guest_Tools Harness
begin

text \<open>
  The guest driver against the device side. The descriptors and completion records of the driver
  (\<open>pcie_vip.c\<close>) are compared byte for byte with what the harness (\<open>verilator_qemu_main.cpp\<close>) parses and
  writes. \<open>ring_bus\<close> is the specification of a ring device: its registers are decoded by the harness's
  \<open>shadow_write\<close>, the checks on the ring and on a descriptor, the completion record and the handling of the
  head are those of \<open>RunGenericDma\<close>, and a transfer copies bytes between guest memory and a RAM instead of
  travelling through the socket and the simulated PCIe core. On it the driver's test is shown to pass, and a
  second test to fail.
\<close>

unbundle bit_operations_syntax

section \<open>A ring device\<close>

record 'v ring_dev =
  rd_main :: "'v HarnessMain"
  rd_ram :: "nat \<Rightarrow> u8"

definition ring_descriptor :: "bytes \<Rightarrow> memory \<times> (nat \<Rightarrow> u8) \<Rightarrow> desc_result \<times> memory \<times> (nat \<Rightarrow> u8)" where
  "ring_descriptor desc = (\<lambda>(m, ram).
     let host_addr = ReadLe64 desc 0; ram_addr = unat (ReadLe32 desc 8); len = ReadLe16 desc 12;
         opcode = desc ! 14; fl = desc ! 15; tag = ReadLe32 desc 16
     in if transfer_allowed len (ReadLe32 desc 8) opcode then
          (\<lparr> dr_status = 0, dr_bytes = ucast len, dr_tag = tag, dr_flags = fl \<rparr>,
           if opcode = 0
           then (m, \<lambda>i. if ram_addr \<le> i \<and> i < ram_addr + unat len then m (host_addr + of_nat (i - ram_addr)) else ram i)
           else (mem_store m host_addr (map (\<lambda>i. ram (ram_addr + i)) [0..<unat len]), ram))
        else (\<lparr> dr_status = 6, dr_bytes = 0, dr_tag = tag, dr_flags = fl \<rparr>, m, ram))"

fun ring_loop ::
  "u64 \<Rightarrow> u64 \<Rightarrow> u32 \<Rightarrow> nat \<Rightarrow> u32 \<Rightarrow> nat \<times> memory \<times> (nat \<Rightarrow> u8) \<Rightarrow> bool \<times> nat \<times> memory \<times> (nat \<Rightarrow> u8)" where
  "ring_loop dbase cbase count 0 index x = (True, x)"
| "ring_loop dbase cbase count (Suc n) index (irqs, m, ram) =
     (let slot = index mod count;
          (r, m, ram) = ring_descriptor (mem_load m (dbase + ucast slot * ucast kDescBytes) (unat kDescBytes)) (m, ram);
          m = mem_store m (cbase + ucast slot * ucast kCplBytes) (completion_record r index);
          irqs = (if dr_flags r AND 1 \<noteq> 0 then irqs + 1 else irqs)
      in if dr_status r \<noteq> 0 then (False, irqs, m, ram)
         else ring_loop dbase cbase count n (index + 1) (irqs, m, ram))"

definition ring_run ::
  "u64 \<Rightarrow> u64 \<Rightarrow> u32 \<Rightarrow> u32 \<Rightarrow> u32 \<Rightarrow> memory \<times> (nat \<Rightarrow> u8) \<Rightarrow> bool \<times> u32 \<times> nat \<times> memory \<times> (nat \<Rightarrow> u8)" where
  "ring_run dbase cbase count tail hd_index x =
     (if count = 0 \<or> count > 1024 \<or> tail < hd_index \<or> tail - hd_index > count then (False, hd_index, 0, x)
      else case ring_loop dbase cbase count (unat (tail - hd_index)) hd_index (0, x) of
        (ok, y) \<Rightarrow> (ok, if ok then tail else hd_index, y))"

definition ring_write :: "u64 \<Rightarrow> u32 \<Rightarrow> memory \<times> 'v ring_dev \<Rightarrow> nat \<times> memory \<times> 'v ring_dev" where
  "ring_write reg v = (\<lambda>(m, d).
     let main = shadow_write reg (le_bytes 4 v) (rd_main d)
     in if reg = 0x1054 \<and> dma_control main AND 1 \<noteq> 0 \<and> desc_count main \<noteq> 0 then
          (case ring_run (desc_base main) (cpl_base main) (desc_count main) v (desc_head main) (m, rd_ram d) of
             (ok, hd_index, irqs, m, ram) \<Rightarrow>
               (irqs, m, \<lparr> rd_main = main\<lparr> desc_head := hd_index, dma_status := (if ok then 0 else 1) \<rparr>, rd_ram = ram \<rparr>))
        else (0, m, d\<lparr> rd_main := main \<rparr>))"

definition ring_read :: "u64 \<Rightarrow> memory \<times> 'v ring_dev \<Rightarrow> u32 \<times> nat \<times> memory \<times> 'v ring_dev" where
  "ring_read reg = (\<lambda>(m, d). (if reg = 0x1058 then dma_status (rd_main d) else 0, 0, m, d))"

definition ring_bus :: "'v ring_dev bus" where
  "ring_bus = \<lparr> bus_write = ring_write, bus_read = ring_read, bus_sleep = (\<lambda>x. (0, x)) \<rparr>"

section \<open>Descriptors and completion records\<close>

lemma desc_bytes_fields:
  "ReadLe64 (desc_bytes d) 0 = d_host_addr d" "ReadLe32 (desc_bytes d) 8 = d_ram_addr d"
  "ReadLe16 (desc_bytes d) 12 = d_length d" "desc_bytes d ! 14 = d_opcode d" "desc_bytes d ! 15 = d_flags d"
  "ReadLe32 (desc_bytes d) 16 = d_tag d"
  by (simp_all add: ReadLe_le_value) (simp_all add: desc_bytes_def le_value_le_bytes nth_append)

lemma mem_load_sub: "k + n \<le> N \<Longrightarrow> mem_load m (a + of_nat k) n = take n (drop k (mem_load m a N))"
  by (auto simp: list_eq_iff_nth_eq ac_simps)

lemma cpl_at_record:
  assumes "mem_load m a 16 = completion_record r index"
  shows "cpl_at m a = \<lparr> c_tag = dr_tag r, c_status = ucast (dr_status r), c_reserved = 0, c_bytes = dr_bytes r, c_sequence = index \<rparr>"
proof -
  have sub: "mem_load m (a + of_nat k) n = take n (drop k (completion_record r index))" if "k + n \<le> 16" for k n
    using mem_load_sub [OF that] assms by simp
  have st: "le_value (le_bytes 2 (dr_status r)) = (ucast (dr_status r) :: u16)"
    using le_value_le_bytes [of 2 "ucast (dr_status r) :: u16"] by (simp add: le_bytes_narrow)
  show ?thesis
    using sub [of 0 4] sub [of 4 2] sub [of 6 2] sub [of 8 4] sub [of 12 4]
    by (simp add: cpl_at_def completion_record_layout le_bytes_narrow st le_value_le_bytes)
qed

section \<open>Programming the ring\<close>

lemma le_value_ucast:
  fixes v :: "'a::len word"
  assumes "LENGTH('a) \<le> 8 * n"
  shows "(le_value (le_bytes n v) :: 'b::len word) = ucast v"
proof (rule bit_word_eqI)
  fix k assume "k < LENGTH('b)"
  moreover have "k div 8 < n" if "k < 8 * n" using that by (simp add: less_mult_imp_div_less mult.commute)
  ultimately show "bit (le_value (le_bytes n v) :: 'b word) k = bit (ucast v :: 'b word) k"
    using assms bit_imp_le_length [of v k] by (auto simp: bit_le_value bit_byte_of bit_ucast_iff)
qed

lemma DecodeLe_register [simp]: "DecodeLe (le_bytes 4 (v :: u32)) = ucast v"
  using DecodeLe_le_value [of "le_bytes 4 v"] by (simp add: le_value_ucast)

lemma halves_join: "set_high (set_low old (ucast (lower_32_bits a))) (ucast (upper_32_bits a)) = a"
proof (rule bit_word_eqI)
  fix k assume k: "k < LENGTH(64)"
  have m: "(0xffffffff :: u64) = mask 32" by (simp add: mask_eq_exp_minus_1)
  have h: "(0xffffffff00000000 :: u64) = push_bit 32 (mask 32)" by (simp add: mask_eq_exp_minus_1 push_bit_eq_mult)
  show "bit (set_high (set_low old (ucast (lower_32_bits a))) (ucast (upper_32_bits a))) k = bit a k"
    unfolding set_high_def set_low_def lower_32_bits_def upper_32_bits_def m h
    using k by (cases "k < 32") (auto simp: bit_simps)
qed

lemma iowrite_ring:
  "reg \<noteq> 0x1054 \<Longrightarrow> iowrite32 ring_bus v reg s =
     s\<lparr>device := (device s)\<lparr>rd_main := shadow_write reg (le_bytes 4 v) (rd_main (device s))\<rparr>\<rparr>"
  by (simp add: iowrite32_def ring_bus_def ring_write_def device_did_def)

definition ring_registers :: "dma_buffers \<Rightarrow> 'v HarnessMain \<Rightarrow> bool" where
  "ring_registers b main \<longleftrightarrow> desc_base main = desc_dma b \<and> cpl_base main = cpl_dma b \<and> desc_count main = 2 \<and> dma_control main = 1"

text \<open>The six register writes of the driver, as the harness decodes them.\<close>

definition programmed :: "dma_buffers \<Rightarrow> 'v HarnessMain \<Rightarrow> 'v HarnessMain" where
  "programmed b main = fold (\<lambda>(reg, v). shadow_write reg (le_bytes 4 (v :: u32)))
     [(VIP_DMA_DESC_BASE_LO, lower_32_bits (desc_dma b)), (VIP_DMA_DESC_BASE_HI, upper_32_bits (desc_dma b)),
      (VIP_DMA_CPL_BASE_LO, lower_32_bits (cpl_dma b)), (VIP_DMA_CPL_BASE_HI, upper_32_bits (cpl_dma b)),
      (VIP_DMA_DESC_COUNT, 2), (VIP_DMA_CONTROL, 1)] main"

lemma programmed_registers:
  "ring_registers b (programmed b main)" "desc_head (programmed b main) = desc_head main"
  "dma_status (programmed b main) = dma_status main"
  by (simp_all add: programmed_def shadow_write_def vip_registers ring_registers_def halves_join)

lemma program_ring_eq:
  "program_ring ring_bus b s = s\<lparr>device := (device s)\<lparr>rd_main := programmed b (rd_main (device s))\<rparr>\<rparr>"
  by (simp add: program_ring_def iowrite_ring vip_registers programmed_def)

section \<open>The ring device as the driver sees it\<close>

definition ring_ready :: "u32 \<Rightarrow> dma_buffers \<Rightarrow> u32 \<Rightarrow> memory \<Rightarrow> 'v ring_dev \<Rightarrow> bool" where
  "ring_ready len b tail m d \<longleftrightarrow>
     mem_load m (desc_dma b) 64 = desc_bytes (desc0 len b) @ desc_bytes (desc1 len b) \<and>
     ring_registers b (rd_main d) \<and> desc_head (rd_main d) = tail \<and> dma_status (rd_main d) = 0"

text \<open>A device as the harness has it before the first doorbell.\<close>

definition fresh_ring :: "'v ring_dev \<Rightarrow> bool" where
  "fresh_ring d \<longleftrightarrow> desc_head (rd_main d) = 0 \<and> dma_status (rd_main d) = 0"

lemma driver_transfer_allowed:
  fixes len :: u32
  assumes "len \<noteq> 0" "len \<le> 4096"
  shows "transfer_allowed (ucast len) 0 0" "transfer_allowed (ucast len) 0 1" "unat (ucast len :: u16) = unat len"
    "ucast (ucast len :: u16) = len"
proof -
  have n: "unat len \<le> 4096" "unat len \<noteq> 0" using assms by (simp_all add: word_le_nat_alt unat_eq_0)
  then show u: "unat (ucast len :: u16) = unat len" by (simp add: unsigned_ucast_eq take_bit_nat_eq_self)
  have "unat (ucast x :: u32) = unat x" for x :: u16
    using unsigned_less [of x, where 'a = nat] by (simp add: unsigned_ucast_eq take_bit_nat_eq_self)
  then show e: "ucast (ucast len :: u16) = len" by (metis u word_unat_eq_iff)
  have "(ucast len :: u16) \<noteq> 0" using n u by (metis unat_0)
  moreover have "unat (ucast x :: u64) = unat x" for x :: u16
    using unsigned_less [of x, where 'a = nat] by (simp add: unsigned_ucast_eq take_bit_nat_eq_self)
  then have "ucast (ucast len :: u16) \<le> (0x10000 :: u64)" using u n unfolding word_le_nat_alt by (simp only:) simp
  ultimately show "transfer_allowed (ucast len) 0 0" "transfer_allowed (ucast len) 0 1"
    using e assms by (simp_all add: transfer_allowed_def kMaxTransfer_def kRamBytes_def)
qed

lemma ring_descriptor_read:
  assumes "len \<noteq> 0" "len \<le> 4096"
  shows "ring_descriptor (desc_bytes (desc0 len b)) (m, ram) =
    (\<lparr> dr_status = 0, dr_bytes = len, dr_tag = 0x100, dr_flags = 0 \<rparr>, m,
     \<lambda>i. if i < unat len then m (src_dma b + of_nat i) else ram i)"
  using driver_transfer_allowed [OF assms] by (simp add: ring_descriptor_def desc_bytes_fields desc0_def fun_eq_iff)

lemma ring_descriptor_write:
  assumes "len \<noteq> 0" "len \<le> 4096"
  shows "ring_descriptor (desc_bytes (desc1 len b)) (m, ram) =
    (\<lparr> dr_status = 0, dr_bytes = len, dr_tag = 0x101, dr_flags = 1 \<rparr>,
     mem_store m (dst_dma b) (map ram [0..<unat len]), ram)"
  using driver_transfer_allowed [OF assms] by (simp add: ring_descriptor_def desc_bytes_fields desc1_def)

lemma ring_loop_step:
  assumes "index mod count = slot" "ring_descriptor (mem_load m (dbase + ucast slot * 32) 32) (m, ram) = (r, m1, ram1)" "dr_status r = 0"
  shows "ring_loop dbase cbase count (Suc n) index (irqs, m, ram) =
    ring_loop dbase cbase count n (index + 1) (irqs + (if dr_flags r AND 1 \<noteq> 0 then 1 else 0),
      mem_store m1 (cbase + ucast slot * 16) (completion_record r index), ram1)"
  using assms by (simp add: kDescBytes_def kCplBytes_def)

lemma ring_pair:
  assumes ok: "len \<noteq> 0" "len \<le> 4096" "run_buffers len b"
    and desc: "mem_load m (desc_dma b) 64 = desc_bytes (desc0 len b) @ desc_bytes (desc1 len b)"
    and src: "mem_load m (src_dma b) (unat len) = pattern (unat len)"
    and tail: "tail mod 2 = 0" "(tail + 1) mod 2 = 1"
  shows "\<exists>m' ram'. ring_loop (desc_dma b) (cpl_dma b) 2 2 tail (0, m, ram) = (True, 1, m', ram') \<and>
    mem_load m' (desc_dma b) 64 = mem_load m (desc_dma b) 64 \<and>
    mem_load m' (dst_dma b) (unat len) = pattern (unat len) \<and> completions_ok len b m'"
proof -
  let ?r0 = "\<lparr> dr_status = 0, dr_bytes = len, dr_tag = 0x100, dr_flags = 0 \<rparr>"
  let ?r1 = "\<lparr> dr_status = 0, dr_bytes = len, dr_tag = 0x101, dr_flags = 1 \<rparr>"
  let ?ram = "\<lambda>i. if i < unat len then m (src_dma b + of_nat i) else ram i"
  define m1 where "m1 = mem_store m (cpl_dma b) (completion_record ?r0 tail)"
  define m2 where "m2 = mem_store m1 (dst_dma b) (map ?ram [0..<unat len])"
  define m3 where "m3 = mem_store m2 (cpl_dma b + 16) (completion_record ?r1 (tail + 1))"
  have len: "length (completion_record r i) = 16" for r i by (simp add: completion_record_layout)
  have small: "length (map ?ram [0..<unat len]) \<le> 2 ^ 64" using ok(2) by (simp add: word_le_nat_alt)
  have data: "map ?ram [0..<unat len] = pattern (unat len)"
    using src by (auto simp: list_eq_iff_nth_eq)
  note ap = ok(3) [unfolded run_buffers_def]
  have u: "unat (cpl_dma b + 16) = unat (cpl_dma b) + 16"
    using ap unat_offset [of "cpl_dma b" 16] by (simp add: apart_def)
  have p: "apart (cpl_dma b) 16 (desc_dma b) 64" "apart (cpl_dma b + 16) 16 (desc_dma b) 64"
      "apart (dst_dma b) (unat len) (desc_dma b) 64" "apart (cpl_dma b + 16) 16 (dst_dma b) (unat len)"
      "apart (cpl_dma b + 16) 16 (cpl_dma b) 16" "apart (dst_dma b) (unat len) (cpl_dma b) 16"
    using ap u by (auto simp: apart_def)
  have d1: "mem_load m1 (desc_dma b) 64 = mem_load m (desc_dma b) 64"
    using p by (simp add: m1_def mem_store_apart len)
  have d3: "mem_load m3 (desc_dma b) 64 = mem_load m (desc_dma b) 64"
    using p d1 by (simp add: m3_def m2_def mem_store_apart len)
  have dst: "mem_load m3 (dst_dma b) (unat len) = pattern (unat len)"
  proof -
    have "mem_load m3 (dst_dma b) (unat len) = mem_load m2 (dst_dma b) (unat len)"
      using p by (simp add: m3_def mem_store_apart len)
    then show ?thesis using mem_store_same [OF small, of m1 "dst_dma b"] by (simp add: m2_def data)
  qed
  have cpl0: "mem_load m3 (cpl_dma b) 16 = completion_record ?r0 tail"
  proof -
    have "mem_load m3 (cpl_dma b) 16 = mem_load m1 (cpl_dma b) 16" using p by (simp add: m3_def m2_def mem_store_apart len)
    also have "\<dots> = completion_record ?r0 tail" using mem_store_same [of "completion_record ?r0 tail"] by (simp add: m1_def len)
    finally show ?thesis .
  qed
  have cpl1: "mem_load m3 (cpl_dma b + 16) 16 = completion_record ?r1 (tail + 1)"
    using mem_store_same [of "completion_record ?r1 (tail + 1)"] by (simp add: m3_def len)
  have slot0: "mem_load m (desc_dma b) 32 = desc_bytes (desc0 len b)"
    using mem_load_sub [of 0 32 64 m "desc_dma b"] desc by simp
  have slot1: "mem_load m1 (desc_dma b + 32) 32 = desc_bytes (desc1 len b)"
    using mem_load_sub [of 32 32 64 m1 "desc_dma b"] desc d1 by simp
  have "ring_loop (desc_dma b) (cpl_dma b) 2 (Suc (Suc 0)) tail (0, m, ram) =
      ring_loop (desc_dma b) (cpl_dma b) 2 (Suc 0) (tail + 1) (0, m1, ?ram)"
    using ring_loop_step [OF tail(1), of m "desc_dma b" ram ?r0 m ?ram "cpl_dma b" "Suc 0" 0]
      slot0 ring_descriptor_read [OF ok(1,2), of b m ram] by (simp add: m1_def del: ring_loop.simps)
  moreover have "ring_loop (desc_dma b) (cpl_dma b) 2 (Suc 0) (tail + 1) (0, m1, ?ram) = (True, 1, m3, ?ram)"
    using ring_loop_step [OF tail(2), of m1 "desc_dma b" ?ram ?r1 m2 ?ram "cpl_dma b" 0 0]
      slot1 ring_descriptor_write [OF ok(1,2), of b m1 ?ram] by (simp add: m3_def m2_def del: ring_loop.simps(2))
  ultimately have "ring_loop (desc_dma b) (cpl_dma b) 2 2 tail (0, m, ram) = (True, 1, m3, ?ram)"
    by (metis numeral_2_eq_2)
  moreover have "completions_ok len b m3"
    using cpl_at_record [OF cpl0] cpl_at_record [OF cpl1] by (simp add: completions_ok_def)
  ultimately show ?thesis using d3 dst by blast
qed

lemma shadow_write_tail [simp]: "shadow_write 0x1054 pl main = main"
  by (simp add: shadow_write_def)

lemma ring_doorbell_pair:
  assumes "ring_ready len b tail m d" and ok: "len \<noteq> 0" "len \<le> 4096" "run_buffers len b"
    and src: "mem_load m (src_dma b) (unat len) = pattern (unat len)"
    and tail: "unat tail mod 2 = 0" "unat tail + 2 < 2 ^ 32"
  shows "\<exists>m' d'. bus_write ring_bus VIP_DMA_DESC_TAIL (tail + 2) (m, d) = (1, m', d') \<and>
    mem_load m' (dst_dma b) (unat len) = pattern (unat len) \<and> completions_ok len b m' \<and> ring_ready len b (tail + 2) m' d'"
proof -
  note regs = assms(1) [unfolded ring_ready_def]
  have t1: "unat (tail + 1) = unat tail + 1" using tail(2) by (simp add: unat_word_ariths)
  have t2: "unat (tail + 2) = unat tail + 2" using tail(2) by (simp add: unat_word_ariths)
  have ev: "tail mod 2 = 0" using tail(1) by (simp add: word_unat_eq_iff unat_mod)
  have odd: "(tail + 1) mod 2 = 1" using t1 tail(1) by (simp add: word_unat_eq_iff unat_mod) presburger
  obtain m' ram' where l: "ring_loop (desc_dma b) (cpl_dma b) 2 2 tail (0, m, rd_ram d) = (True, 1, m', ram')"
      and m': "mem_load m' (desc_dma b) 64 = mem_load m (desc_dma b) 64" "mem_load m' (dst_dma b) (unat len) = pattern (unat len)"
        "completions_ok len b m'"
    using ring_pair [OF ok _ src ev odd] regs by blast
  have "tail + 2 - tail = 2" "\<not> tail + 2 < tail" using t2 by (simp_all add: word_less_nat_alt)
  with l have "ring_run (desc_dma b) (cpl_dma b) 2 (tail + 2) tail (m, rd_ram d) = (True, tail + 2, 1, m', ram')"
    by (simp add: ring_run_def)
  with regs have "bus_write ring_bus VIP_DMA_DESC_TAIL (tail + 2) (m, d) =
      (1, m', \<lparr> rd_main = (rd_main d)\<lparr>desc_head := tail + 2, dma_status := 0\<rparr>, rd_ram = ram' \<rparr>)"
    by (simp add: ring_bus_def ring_write_def ring_registers_def vip_registers)
  with m' regs show ?thesis by (simp add: ring_ready_def ring_registers_def)
qed

text \<open>The ring device keeps the driver's contract.\<close>

interpretation ring: dma_device ring_bus ring_ready fresh_ring
proof
  fix s :: "'a ring_dev guest" and b len
  assume "fresh_ring (device s)" "mem_load (gmem s) (desc_dma b) 64 = desc_bytes (desc0 len b) @ desc_bytes (desc1 len b)"
  then show "ring_ready len b 0 (gmem (program_ring ring_bus b s)) (device (program_ring ring_bus b s))"
    using programmed_registers [of b "rd_main (device s)"] by (simp add: program_ring_eq ring_ready_def fresh_ring_def)
next
  fix len b tail m and d :: "'a ring_dev"
  assume "ring_ready len b tail m d"
  then show "bus_read ring_bus VIP_DMA_STATUS (m, d) = (0, 0, m, d)"
    by (simp add: ring_bus_def ring_read_def ring_ready_def vip_registers)
next
  fix len b tail m m' and d :: "'a ring_dev"
  assume "ring_ready len b tail m d" "mem_load m' (desc_dma b) 64 = mem_load m (desc_dma b) 64"
  then show "ring_ready len b tail m' d" by (simp add: ring_ready_def)
qed (rule ring_doorbell_pair)

lemma run_on_ring:
  assumes "valid_config cfg" "granted s = Some b" "run_buffers (effective_length cfg) b" "\<not> run_lock (vip s)"
    and "fresh_ring (device s)"
  shows "\<exists>cfg' s'. pcie_vip_run_config ring_bus HZ ktime cfg s = Some (0, cfg', s') \<and>
    mem_load (gmem s') (dst_dma b) (unat (effective_length cfg)) = pattern (unat (effective_length cfg)) \<and>
    cfg_completed cfg' = effective_iterations cfg \<and> desc_head (rd_main (device s')) = 2 * effective_iterations cfg"
  using ring.run_passes [OF assms, of HZ ktime] by (auto simp: ring_ready_def)

section \<open>A ring whose head has moved\<close>

lemma ring_sleep [simp]: "bus_sleep ring_bus x = (0, x)"
  by (simp add: ring_bus_def)

lemma sleep_ring [simp]: "sleep_once ring_bus s = s"
  by (simp add: sleep_once_def)

lemma wait_status_stuck: "dma_status (rd_main (device s)) \<noteq> 0 \<Longrightarrow> fst (wait_status ring_bus n s) = False"
  by (induction n) (simp_all add: ioread32_def ring_bus_def ring_read_def vip_registers sleep_once_def)

lemma iowrite_doorbell:
  assumes "ring_registers b (rd_main (device s))"
    and "ring_run (desc_dma b) (cpl_dma b) 2 tail (desc_head (rd_main (device s))) (gmem s, rd_ram (device s)) = (ok, hd_index, irqs, m, ram)"
  shows "iowrite32 ring_bus tail VIP_DMA_DESC_TAIL s =
    device_did (irqs, m, \<lparr> rd_main = (rd_main (device s))\<lparr>desc_head := hd_index, dma_status := (if ok then 0 else 1)\<rparr>, rd_ram = ram \<rparr>) s"
  using assms by (simp add: iowrite32_def ring_bus_def ring_write_def ring_registers_def vip_registers)

lemma stale_head_iteration:
  assumes "2 \<le> desc_head (rd_main (device s))" "ring_registers b (rd_main (device s))"
  shows "fst (run_iteration ring_bus HZ len b 2 s) = - ETIMEDOUT"
proof (cases "dma_status (rd_main (device s)) = 0")
  case False
  then have "fst (wait_status ring_bus 50 (prepare_buffers len b s)) = False"
    by (intro wait_status_stuck) (simp add: prepare_buffers_def)
  then show ?thesis by (auto simp: run_iteration_def Let_def split: prod.split)
next
  case True
  let ?p = "prepare_buffers len b s"
  have st: "wait_status ring_bus 50 ?p = (True, ?p)"
    using True by (intro wait_status_idle) (simp_all add: prepare_buffers_def ring_bus_def ring_read_def vip_registers)
  let ?s1 = "reinit_completion ?p"
  let ?d = "device s"
  have d: "device ?s1 = ?d" "irq_done (vip ?s1) = 0" by (simp_all add: reinit_completion_def prepare_buffers_def)
  have run: "\<exists>ok. ring_run (desc_dma b) (cpl_dma b) 2 2 (desc_head (rd_main ?d)) (gmem ?s1, rd_ram ?d)
      = (ok, desc_head (rd_main ?d), 0, gmem ?s1, rd_ram ?d)"
    using assms(1) by (cases "desc_head (rd_main ?d) = 2") (auto simp: ring_run_def)
  have "irq_done (vip (iowrite32 ring_bus 2 VIP_DMA_DESC_TAIL ?s1)) = 0"
    using run iowrite_doorbell [of b ?s1 2] assms(2) d by (auto simp: device_did_no_irq)
  then have "fst (wait_for_completion_timeout ring_bus (5 * HZ) (iowrite32 ring_bus 2 VIP_DMA_DESC_TAIL ?s1)) = 0"
    by (intro quiet_wait) simp_all
  then show ?thesis by (auto simp: run_iteration_def st split: prod.split)
qed

section \<open>Properties\<close>

definition sample_ring :: "unit ring_dev" where
  "sample_ring = \<lparr> rd_main = new_HarnessMain id sample_top (sample_server 0 []), rd_ram = (\<lambda>_. 0) \<rparr>"

definition sample_guest :: "unit ring_dev guest" where
  "sample_guest = fresh_guest sample_grants sample_ring"

definition sample_buffers :: dma_buffers where
  "sample_buffers = \<lparr> desc_dma = 0x1000, cpl_dma = 0x2000, src_dma = 0x4000, dst_dma = 0x6000 \<rparr>"

lemma sample_guest_facts:
  "granted sample_guest = Some sample_buffers" "\<not> run_lock (vip sample_guest)" "fresh_ring (device sample_guest)"
  "run_buffers 256 sample_buffers" "valid_config (sample_config 256 10)" "effective_length (sample_config 256 10) = 256"
  by (simp_all add: sample_guest_def granted_def fresh_guest_def sample_grants_def sample_buffers_def new_vip_def fresh_ring_def
      sample_ring_def new_HarnessMain_def run_buffers_def apart_def valid_config_def sample_config_def effective_length_def)

lemma low_tags: "(0x100 :: u8) = 0" "(0x101 :: u8) = 1"
  by simp_all

text \<open>
  The driver's test passes on a ring device. With any valid configuration, four buffers that do not
  overlap, the lock free and a device that has not run yet, \<open>pcie_vip_run_config\<close> returns 0 with every
  iteration counted; the destination holds the test pattern, and the device's head has moved by two
  descriptors per iteration.
\<close>

theorem driver_test_passes:
  assumes "valid_config cfg" "granted s = Some b" "run_buffers (effective_length cfg) b" "\<not> run_lock (vip s)"
    and "fresh_ring (device s)"
  shows "\<exists>cfg' s'. pcie_vip_run_config ring_bus HZ ktime cfg s = Some (0, cfg', s') \<and>
    mem_load (gmem s') (dst_dma b) (unat (effective_length cfg)) = pattern (unat (effective_length cfg)) \<and>
    cfg_completed cfg' = effective_iterations cfg \<and> desc_head (rd_main (device s')) = 2 * effective_iterations cfg"
  using assms by (rule run_on_ring)

theorem driver_test_passes_witness:
  "\<exists>cfg' s'. pcie_vip_run_config ring_bus 250 of_nat (sample_config 256 10) sample_guest = Some (0, cfg', s') \<and>
     mem_load (gmem s') 0x6000 256 = pattern 256 \<and> cfg_completed cfg' = 10"
  using driver_test_passes [of "sample_config 256 10" sample_guest sample_buffers 250 of_nat] sample_guest_facts
  by (fastforce simp: sample_buffers_def effective_iterations_def sample_config_def)

text \<open>
  C7: success means the data came back. On every device, when \<open>pcie_vip_run_config\<close> returns 0, the
  destination buffer holds the pattern in guest memory, both completion records carry the right tag, status 0
  and the length, and the number of completed iterations is the requested one.
\<close>

theorem run_success_sound:
  assumes "pcie_vip_run_config bus HZ ktime cfg s = Some (0, cfg', s')"
  shows "\<exists>b. granted s = Some b \<and> mem_load (gmem s') (dst_dma b) (unat (effective_length cfg)) = pattern (unat (effective_length cfg)) \<and>
    completions_ok (effective_length cfg) b (gmem s') \<and> cfg_completed cfg' = effective_iterations cfg \<and> cfg_last_status cfg' = 0"
  using assms
proof (cases rule: run_config_cases)
  case (ran b s1)
  from locked_run_outcome(7,8,9) [OF ran(4) effective_valid(3)] ran show ?thesis by (simp add: data_ok_iff)
qed (simp_all add: errnos)

theorem run_success_sound_witness:
  "\<exists>cfg' s'. pcie_vip_run_config ring_bus 250 of_nat (sample_config 256 10) sample_guest = Some (0, cfg', s') \<and>
     completions_ok 256 sample_buffers (gmem s')"
proof -
  obtain cfg' s' where r: "pcie_vip_run_config ring_bus 250 of_nat (sample_config 256 10) sample_guest = Some (0, cfg', s')"
    using run_on_ring [of "sample_config 256 10" sample_guest sample_buffers 250 of_nat] sample_guest_facts by auto
  from run_success_sound [OF r] r sample_guest_facts show ?thesis by auto
qed

text \<open>
  C25: a second test fails. The driver starts every run with tail 0 while the device keeps its head, and
  nothing the driver writes resets it: on a ring device whose head has reached 2 or more, every run that gets
  its buffers returns ETIMEDOUT with no iteration completed, whatever the status register holds.
\<close>

theorem second_run_times_out:
  assumes "2 \<le> desc_head (rd_main (device s))" "valid_config cfg" "granted s = Some b" "\<not> run_lock (vip s)"
  shows "\<exists>cfg' s'. pcie_vip_run_config ring_bus HZ ktime cfg s = Some (- ETIMEDOUT, cfg', s') \<and> cfg_completed cfg' = 0"
proof -
  let ?len = "effective_length cfg"
  let ?s = "started ring_bus ?len b (allocated ?len b s)"
  have "2 \<le> desc_head (rd_main (device ?s))" "ring_registers b (rd_main (device ?s))"
    using assms(1) programmed_registers [of b "rd_main (device s)"]
    by (simp_all add: started_def program_ring_eq fill_descriptors_def allocated_def)
  from stale_head_iteration [OF this] show ?thesis
    using first_iteration_timeout [OF assms(2-4), of ring_bus HZ ktime] by blast
qed

theorem second_run_times_out_witness:
  "\<exists>cfg' s' cfg'' s''. pcie_vip_run_config ring_bus 250 of_nat (sample_config 256 10) sample_guest = Some (0, cfg', s') \<and>
     pcie_vip_run_config ring_bus 250 of_nat (sample_config 256 10) (s'\<lparr>grants := sample_grants\<rparr>) = Some (- ETIMEDOUT, cfg'', s'')"
proof -
  obtain cfg' s' where r: "pcie_vip_run_config ring_bus 250 of_nat (sample_config 256 10) sample_guest = Some (0, cfg', s')"
      "desc_head (rd_main (device s')) = 20"
    using run_on_ring [of "sample_config 256 10" sample_guest sample_buffers 250 of_nat] sample_guest_facts
    by (auto simp: effective_iterations_def sample_config_def)
  have "\<not> run_lock (vip s')" using r(1) by (cases rule: run_config_cases) (auto simp: errnos dest: locked_run_outcome [OF _ effective_valid(3)])
  with second_run_times_out [of "s'\<lparr>grants := sample_grants\<rparr>" "sample_config 256 10" sample_buffers 250 of_nat] r sample_guest_facts(5)
  show ?thesis by (auto simp: granted_def sample_grants_def sample_buffers_def)
qed

text \<open>
  The harness agrees. When the head of its ring is at 2 or more, the first doorbell of a driver run
  (tail 2) makes the harness return without any request to the host: no descriptor is fetched and no interrupt
  is sent.
\<close>

theorem stale_head_doorbell_silent:
  assumes "2 \<le> desc_head h"
  shows "\<exists>h'. ring_doorbell ev sched VIP_DMA_DESC_TAIL (le_bytes 4 (2 :: u32)) h = Done h' \<and> hsrv h' = hsrv h \<and> desc_head h' = desc_head h"
proof -
  have "ucast (ucast (2 :: u32) :: u64) = (2 :: u32)" by simp
  moreover have "desc_head h = 2" if "\<not> 2 < desc_head h" using that assms by simp
  ultimately show ?thesis
    by (auto simp: ring_doorbell_def RunGenericDma_def vip_registers)
qed

text \<open>
  C23: the harness carries out what the driver asked for. Fetched as the payload of a successful response, the
  first descriptor of a run (of 1 to 4096 bytes) makes \<open>RunGenericDma\<close> read the driver's source buffer into
  device address 0, the second one write device address 0 to the driver's destination buffer, each with the
  full length and the low byte of the tag; the result recorded for the completion carries the driver's tag.
\<close>

theorem driver_descriptors_executed:
  assumes "len \<noteq> 0" "len \<le> 4096" "Status (header m) = kSuccess"
  shows "(payload m = desc_bytes (desc0 len b) \<longrightarrow>
      run_descriptor ev sched ts (Some m) hs =
        obind (DmaRead ev sched (src_dma b) 0 (ucast len) 0 ts hs)
          (\<lambda>(ok, hs). Done (\<lparr> dr_status = (if ok then 0 else 1), dr_bytes = (if ok then len else 0), dr_tag = 0x100, dr_flags = 0 \<rparr>, hs))) \<and>
    (payload m = desc_bytes (desc1 len b) \<longrightarrow>
      run_descriptor ev sched ts (Some m) hs =
        obind (DmaWrite ev sched (dst_dma b) 0 (ucast len) 1 ts hs)
          (\<lambda>(ok, hs). Done (\<lparr> dr_status = (if ok then 0 else 1), dr_bytes = (if ok then len else 0), dr_tag = 0x101, dr_flags = 1 \<rparr>, hs)))"
  using driver_transfer_allowed [OF assms(1,2)] assms(3)
  by (simp add: run_descriptor_def desc_bytes_fields kDescBytes_def desc0_def desc1_def low_tags Let_def cong: if_cong)

theorem driver_descriptors_executed_witness:
  "run_descriptor id (\<lambda>_. []) 0 (Some (sample_msg kDmaReadRsp 5 (desc_bytes (desc0 64 sample_buffers)))) (new_Harness sample_top, sample_server 0 []) =
     obind (DmaRead id (\<lambda>_. []) 0x4000 0 64 0 0 (new_Harness sample_top, sample_server 0 []))
       (\<lambda>(ok, hs). Done (\<lparr> dr_status = (if ok then 0 else 1), dr_bytes = (if ok then 64 else 0), dr_tag = 0x100, dr_flags = 0 \<rparr>, hs))"
  using driver_descriptors_executed [of 64 "sample_msg kDmaReadRsp 5 (desc_bytes (desc0 64 sample_buffers))" sample_buffers id "\<lambda>_. []" 0
      "(new_Harness sample_top, sample_server 0 [])"]
  by (simp add: sample_msg_def sample_buffers_def image_iff)

text \<open>
  C24: driver and harness mean the same by a completion record. If the two slots hold records written by the
  harness, the driver's check accepts them exactly when the recorded tags are the driver's, both byte counts
  are the length and the low halves of both status values are 0.
\<close>

theorem completion_check_agrees:
  assumes "mem_load m (cpl_dma b) 16 = completion_record r0 i0" "mem_load m (cpl_dma b + 16) 16 = completion_record r1 i1"
  shows "completions_ok len b m \<longleftrightarrow>
    (dr_tag r0 = 0x100 \<and> (ucast (dr_status r0) :: u16) = 0 \<and> dr_bytes r0 = len) \<and>
    (dr_tag r1 = 0x101 \<and> (ucast (dr_status r1) :: u16) = 0 \<and> dr_bytes r1 = len)"
  using cpl_at_record [OF assms(1)] cpl_at_record [OF assms(2)] by (auto simp: completions_ok_def)

theorem completion_check_agrees_witness:
  "\<not> completions_ok 64 sample_buffers
     (mem_store (mem_store (\<lambda>_. 0) 0x2000 (completion_record \<lparr> dr_status = 0, dr_bytes = 64, dr_tag = 0x100, dr_flags = 0 \<rparr> 0))
        0x2010 (completion_record \<lparr> dr_status = 6, dr_bytes = 0, dr_tag = 0x101, dr_flags = 1 \<rparr> 1))"
proof -
  let ?r0 = "\<lparr> dr_status = 0, dr_bytes = 64, dr_tag = 0x100, dr_flags = 0 \<rparr> :: desc_result"
  let ?r1 = "\<lparr> dr_status = 6, dr_bytes = 0, dr_tag = 0x101, dr_flags = 1 \<rparr> :: desc_result"
  let ?m1 = "mem_store (\<lambda>_. 0) 0x2000 (completion_record ?r0 0)"
  let ?m2 = "mem_store ?m1 0x2010 (completion_record ?r1 1)"
  have len: "length (completion_record r i) = 16" for r i by (simp add: completion_record_layout)
  have "mem_load ?m2 0x2000 16 = mem_load ?m1 0x2000 16" by (intro mem_store_apart) (simp add: len apart_def)
  then have 0: "mem_load ?m2 (cpl_dma sample_buffers) 16 = completion_record ?r0 0"
    using mem_store_same [of "completion_record ?r0 0" "\<lambda>_. 0" "0x2000"] by (simp add: len sample_buffers_def)
  have 1: "mem_load ?m2 (cpl_dma sample_buffers + 16) 16 = completion_record ?r1 1"
    using mem_store_same [of "completion_record ?r1 1" ?m1 "0x2010"] by (simp add: len sample_buffers_def)
  from completion_check_agrees [OF 0 1, of 64] show ?thesis by simp
qed

theorem stale_head_doorbell_silent_witness:
  "\<exists>h'. ring_doorbell id (\<lambda>_. []) VIP_DMA_DESC_TAIL (le_bytes 4 (2 :: u32))
      ((new_HarnessMain id sample_top (sample_server 0 []))\<lparr>desc_head := 2, desc_count := 2, dma_control := 1\<rparr>) = Done h' \<and>
    hsrv h' = sample_server 0 []"
  using stale_head_doorbell_silent [of "(new_HarnessMain id sample_top (sample_server 0 []))\<lparr>desc_head := 2, desc_count := 2, dma_control := 1\<rparr>" id "\<lambda>_. []"]
  by (auto simp: new_HarnessMain_def)

section \<open>The test program on top\<close>

text \<open>The environment of \<open>pcie-vip-run\<close> in which \<open>ioctl\<close> is the driver's, on a ring device.\<close>

definition driver_env :: "nat \<Rightarrow> (nat \<Rightarrow> u64) \<Rightarrow> u64 \<times> u64 \<Rightarrow> u64 \<times> u64 \<Rightarrow> 'v ring_dev guest run_env" where
  "driver_env HZ ktime t0 t1 =
     \<lparr> re_open = True, re_ioctl = (\<lambda>cmd arg s. pcie_vip_ioctl ring_bus HZ ktime cmd arg True s), re_start = t0, re_end = t1 \<rparr>"

lemma ioctl_numbers: "PCIE_VIP_IOC_RUN = 0x5600" "PCIE_VIP_IOC_RUN_CONFIG = 0xC0185601"
  by (simp_all add: PCIE_VIP_IOC_RUN_def PCIE_VIP_IOC_RUN_CONFIG_def IOC_def)

lemma plain_run_config: "pcie_vip_run bus HZ ktime s = map_option (\<lambda>(ret, _, s). (ret, s)) (pcie_vip_run_config bus HZ ktime (tool_config default_settings) s)"
  by (simp add: pcie_vip_run_def tool_config_def default_settings_def)



end
