(* ===== verification/Testbench.thy ===== *)
theory Testbench
  imports Prelude "HOL-Library.While_Combinator"
begin

text \<open>
  The entry point of the self-checking Verilator testbench (\<open>rtl/alex/verilator_main.cpp\<close>): four clock edges
  in reset, then the clock runs until the simulation has called \<open>$finish\<close>. The generated class is the
  parameter \<open>ev\<close>, with the finish flag \<open>fin\<close> as an observation of its state; the loop is a \<open>while\<close> that may
  not end (\<open>None\<close>).
\<close>

record 'v TbTop =
  tb_clk :: bool
  tb_rst :: bool
  tb_state :: 'v

definition tb_reset_cycle :: "('v TbTop \<Rightarrow> 'v TbTop) \<Rightarrow> 'v TbTop \<Rightarrow> 'v TbTop" where
  "tb_reset_cycle ev t = (ev ((ev t)\<lparr> tb_clk := True \<rparr>))\<lparr> tb_clk := False \<rparr>"

definition tb_cycle :: "('v TbTop \<Rightarrow> 'v TbTop) \<Rightarrow> 'v TbTop \<Rightarrow> 'v TbTop" where
  "tb_cycle ev t = ev ((ev (t\<lparr> tb_clk := True \<rparr>))\<lparr> tb_clk := False \<rparr>)"

definition tb_reset :: "('v TbTop \<Rightarrow> 'v TbTop) \<Rightarrow> 'v TbTop \<Rightarrow> 'v TbTop" where
  "tb_reset ev t = ((tb_reset_cycle ev ^^ 4) (t\<lparr> tb_clk := False, tb_rst := True \<rparr>))\<lparr> tb_rst := False \<rparr>"

definition tb_main :: "('v TbTop \<Rightarrow> 'v TbTop) \<Rightarrow> ('v TbTop \<Rightarrow> bool) \<Rightarrow> 'v TbTop \<Rightarrow> 'v TbTop option" where
  "tb_main ev fin t = while_option (\<lambda>t. \<not> fin t) (tb_cycle ev) (tb_reset ev t)"

lemma while_option_iff:
  "while_option b c s = Some t \<longleftrightarrow> (\<exists>k. t = (c ^^ k) s \<and> \<not> b t \<and> (\<forall>j<k. b ((c ^^ j) s)))"
proof
  assume w: "while_option b c s = Some t"
  let ?k = "LEAST k. \<not> b ((c ^^ k) s)"
  from w have ex: "\<exists>k. \<not> b ((c ^^ k) s)" and t: "t = (c ^^ ?k) s" by (auto simp: while_option_def split: if_splits)
  have "\<not> b t" using LeastI_ex [OF ex] t by simp
  moreover have "\<forall>j < ?k. b ((c ^^ j) s)" using not_less_Least by blast
  ultimately show "\<exists>k. t = (c ^^ k) s \<and> \<not> b t \<and> (\<forall>j<k. b ((c ^^ j) s))" using t by blast
next
  assume "\<exists>k. t = (c ^^ k) s \<and> \<not> b t \<and> (\<forall>j<k. b ((c ^^ j) s))"
  then obtain k where k: "t = (c ^^ k) s" "\<not> b t" "\<forall>j<k. b ((c ^^ j) s)" by blast
  have "(LEAST k. \<not> b ((c ^^ k) s)) = k"
  proof (rule Least_equality)
    show "\<not> b ((c ^^ k) s)" using k by simp
    show "k \<le> j" if "\<not> b ((c ^^ j) s)" for j using that k(3) by (metis not_le)
  qed
  moreover have "\<exists>k. \<not> b ((c ^^ k) s)" using k by blast
  ultimately show "while_option b c s = Some t" using k(1) by (simp add: while_option_def)
qed

text \<open>
  The testbench ends exactly when the simulation does. The program returns if and only if some cycle
  after reset sets the finish flag, and then it has run precisely the cycles up to the first one that does.
\<close>

theorem testbench_runs_until_finish:
  "tb_main ev fin t = Some t' \<longleftrightarrow>
     (\<exists>k. t' = (tb_cycle ev ^^ k) (tb_reset ev t) \<and> fin t' \<and> (\<forall>j<k. \<not> fin ((tb_cycle ev ^^ j) (tb_reset ev t))))"
  by (auto simp: tb_main_def while_option_iff)

text \<open>A simulation that records the clock and reset it is evaluated with.\<close>

definition recorder :: "(bool \<times> bool) list TbTop \<Rightarrow> (bool \<times> bool) list TbTop" where
  "recorder t = t\<lparr> tb_state := tb_state t @ [(tb_clk t, tb_rst t)] \<rparr>"

lemma recorder_cycles:
  "(tb_cycle recorder ^^ k) \<lparr> tb_clk = False, tb_rst = False, tb_state = xs \<rparr> =
     \<lparr> tb_clk = False, tb_rst = False, tb_state = xs @ concat (replicate k [(True, False), (False, False)]) \<rparr>"
proof (induction k arbitrary: xs)
  case (Suc k)
  have "tb_cycle recorder \<lparr> tb_clk = False, tb_rst = False, tb_state = xs \<rparr> =
      \<lparr> tb_clk = False, tb_rst = False, tb_state = xs @ [(True, False), (False, False)] \<rparr>"
    by (simp add: tb_cycle_def recorder_def)
  with Suc show ?case by (simp add: funpow_Suc_right del: funpow.simps)
qed simp

lemma recorded_edges:
  "tb_state ((tb_cycle recorder ^^ k) (tb_reset recorder \<lparr> tb_clk = c, tb_rst = r, tb_state = [] \<rparr>)) =
     concat (replicate 4 [(False, True), (True, True)]) @ concat (replicate k [(True, False), (False, False)])"
proof -
  have "tb_reset recorder \<lparr> tb_clk = c, tb_rst = r, tb_state = [] \<rparr> =
      \<lparr> tb_clk = False, tb_rst = False, tb_state = concat (replicate 4 [(False, True), (True, True)]) \<rparr>"
    by (simp add: tb_reset_def tb_reset_cycle_def recorder_def numeral_eq_Suc)
  then show ?thesis by (simp add: recorder_cycles)
qed

end
