(* ===== verification/Qemu_Device.thy ===== *)
theory Qemu_Device
  imports Guest_Driver Server
begin

text \<open>
  The QEMU device model, which the repository carries as a patch (\<open>patches/qemu-pcie-vip.patch\<close>, file
  \<open>hw/misc/pcie-vip.c\<close>): its own codec of the Mini-ICS header, the socket loops, the single outstanding request
  with the reader thread that completes it, the bottom half that serves the endpoint's DMA and MSI-X, the BAR
  accesses of the guest, and realisation and removal of the device.

  The socket is that of \<open>Sockets\<close> (scripts of system-call results). The guest's memory is a byte map with a
  predicate \<open>q_dma_ok\<close> for the accesses that \<open>pci_dma_read\<close> and \<open>pci_dma_write\<close> accept; notified interrupt
  vectors are a list; the virtual clock is a field. A wait for the response takes the batches of operations of
  the reader thread between two evaluations of its condition; the end of the list is the time-out.
\<close>

unbundle bit_operations_syntax

section \<open>Header codec\<close>

record MicsHeader =
  m_type :: u16
  m_flags :: u16
  m_payload_len :: u32
  m_txn_id :: u64
  m_sim_timestamp :: u64
  m_address :: u64
  m_byte_enable :: u64
  m_status :: u32
  m_transfer_len :: u32

record MicsMessage =
  mh :: MicsHeader
  mpayload :: bytes

definition zero_message :: MicsMessage where
  "zero_message = \<lparr> mh = \<lparr> m_type = 0, m_flags = 0, m_payload_len = 0, m_txn_id = 0, m_sim_timestamp = 0, m_address = 0,
     m_byte_enable = 0, m_status = 0, m_transfer_len = 0 \<rparr>, mpayload = [] \<rparr>"

definition get_le16 :: "bytes \<Rightarrow> nat \<Rightarrow> u16" where
  "get_le16 p i = ucast (p ! i) OR push_bit 8 (ucast (p ! (i + 1)))"

definition get_le32 :: "bytes \<Rightarrow> nat \<Rightarrow> u32" where
  "get_le32 p i = ucast (p ! i) OR push_bit 8 (ucast (p ! (i + 1))) OR push_bit 16 (ucast (p ! (i + 2))) OR
     push_bit 24 (ucast (p ! (i + 3)))"

definition get_le64 :: "bytes \<Rightarrow> nat \<Rightarrow> u64" where
  "get_le64 p i = ucast (get_le32 p i) OR push_bit 32 (ucast (get_le32 p (i + 4)))"

definition put_le16 :: "nat \<Rightarrow> u16 \<Rightarrow> bytes \<Rightarrow> bytes" where
  "put_le16 i v p = p[i := ucast v, i + 1 := ucast (drop_bit 8 v)]"

definition put_le32 :: "nat \<Rightarrow> u32 \<Rightarrow> bytes \<Rightarrow> bytes" where
  "put_le32 i v p = p[i := ucast v, i + 1 := ucast (drop_bit 8 v), i + 2 := ucast (drop_bit 16 v), i + 3 := ucast (drop_bit 24 v)]"

definition put_le64 :: "nat \<Rightarrow> u64 \<Rightarrow> bytes \<Rightarrow> bytes" where
  "put_le64 i v p = put_le32 (i + 4) (ucast (drop_bit 32 v)) (put_le32 i (ucast v) p)"

definition MICS_MAGIC :: u32 where "MICS_MAGIC = 0x5343494d"
definition MICS_VERSION :: u16 where "MICS_VERSION = 2"
definition MICS_HEADER_SIZE :: nat where "MICS_HEADER_SIZE = 64"
definition MICS_MAX_PAYLOAD :: u32 where "MICS_MAX_PAYLOAD = 16 * 1024 * 1024"
definition MICS_FLAG_RESPONSE :: u16 where "MICS_FLAG_RESPONSE = 1"

definition mics_encode_header :: "MicsHeader \<Rightarrow> bytes" where
  "mics_encode_header h =
     (let out = replicate MICS_HEADER_SIZE 0;
          out = put_le32 0 MICS_MAGIC out;
          out = put_le16 4 MICS_VERSION out;
          out = put_le16 6 (m_type h) out;
          out = put_le16 8 (m_flags h) out;
          out = put_le16 10 (of_nat MICS_HEADER_SIZE) out;
          out = put_le32 12 (m_payload_len h) out;
          out = put_le64 16 (m_txn_id h) out;
          out = put_le64 24 (m_sim_timestamp h) out;
          out = put_le64 32 (m_address h) out;
          out = put_le64 40 (m_byte_enable h) out;
          out = put_le32 48 (m_status h) out
      in put_le32 56 (m_transfer_len h) out)"

definition mics_decode_header :: "bytes \<Rightarrow> MicsHeader option" where
  "mics_decode_header p =
     (if get_le32 p 0 \<noteq> MICS_MAGIC \<or> get_le16 p 4 \<noteq> MICS_VERSION \<or> get_le16 p 10 \<noteq> of_nat MICS_HEADER_SIZE then None
      else
        let h = \<lparr> m_type = get_le16 p 6, m_flags = get_le16 p 8, m_payload_len = get_le32 p 12, m_txn_id = get_le64 p 16,
                  m_sim_timestamp = get_le64 p 24, m_address = get_le64 p 32, m_byte_enable = get_le64 p 40,
                  m_status = get_le32 p 48, m_transfer_len = get_le32 p 56 \<rparr>
        in if m_payload_len h \<le> MICS_MAX_PAYLOAD then Some h else None)"

section \<open>Socket loops\<close>

fun wait_fd :: "poll_result list \<Rightarrow> (bool \<times> poll_result list) option" where
  "wait_fd [] = None"
| "wait_fd (PollReady re # ps) = Some (re AND (POLLERR OR POLLHUP OR POLLNVAL) = 0, ps)"
| "wait_fd (PollTimedOut # ps) = Some (False, ps)"
| "wait_fd (PollFailed e # ps) = (if e = EINTR then wait_fd ps else Some (False, ps))"

fun retry_recv :: "recv_result list \<Rightarrow> (nat option \<times> recv_result list) option" where
  "retry_recv [] = None"
| "retry_recv (RecvGot k # rs) = Some (Some k, rs)"
| "retry_recv (RecvFailed e # rs) = (if e = EINTR then retry_recv rs else Some (None, rs))"

fun retry_send :: "send_result list \<Rightarrow> (nat option \<times> send_result list) option" where
  "retry_send [] = None"
| "retry_send (SendAccepted k # ss) = Some (Some k, ss)"
| "retry_send (SendFailed e # ss) = (if e = EINTR then retry_send ss else Some (None, ss))"

text \<open>One pass of \<open>recv_all\<close> and of \<open>send_all_locked\<close>: the bytes moved (at least one), or failure.\<close>

definition recv_step :: "nat \<Rightarrow> UnixSocket \<Rightarrow> (bytes option \<times> UnixSocket) option" where
  "recv_step len s =
     (case wait_fd (polls s) of
        None \<Rightarrow> None
      | Some (ok, ps) \<Rightarrow>
          if \<not> ok then Some (None, s\<lparr> polls := ps \<rparr>)
          else
            (case retry_recv (recvs s) of
               None \<Rightarrow> None
             | Some (None, rs) \<Rightarrow> Some (None, s\<lparr> polls := ps, recvs := rs \<rparr>)
             | Some (Some k, rs) \<Rightarrow>
                 let got = take (min k len) (rx s)
                 in Some (if got = [] then None else Some got,
                          s\<lparr> polls := ps, recvs := rs, rx := drop (length got) (rx s) \<rparr>)))"

definition send_step :: "bytes \<Rightarrow> UnixSocket \<Rightarrow> (nat option \<times> UnixSocket) option" where
  "send_step data s =
     (case wait_fd (polls s) of
        None \<Rightarrow> None
      | Some (ok, ps) \<Rightarrow>
          if \<not> ok then Some (None, s\<lparr> polls := ps \<rparr>)
          else
            (case retry_send (sends s) of
               None \<Rightarrow> None
             | Some (None, ss) \<Rightarrow> Some (None, s\<lparr> polls := ps, sends := ss \<rparr>)
             | Some (Some k, ss) \<Rightarrow>
                 let n = min k (length data)
                 in Some (if n = 0 then None else Some n, s\<lparr> polls := ps, sends := ss, tx := tx s @ take n data \<rparr>)))"

lemma recv_step_shrinks: "recv_step len s = Some (Some got, s') \<Longrightarrow> got \<noteq> [] \<and> length got \<le> len"
  by (auto simp: recv_step_def Let_def split: option.splits prod.splits if_splits)

lemma send_step_shrinks: "send_step data s = Some (Some n, s') \<Longrightarrow> 0 < n \<and> n \<le> length data"
  by (auto simp: send_step_def Let_def split: option.splits prod.splits if_splits)

function recv_all :: "nat \<Rightarrow> UnixSocket \<Rightarrow> (bytes option \<times> UnixSocket) option" where
  "recv_all len s =
     (if len = 0 then Some (Some [], s)
      else
        case recv_step len s of
          None \<Rightarrow> None
        | Some (None, s) \<Rightarrow> Some (None, s)
        | Some (Some got, s) \<Rightarrow>
            map_option (\<lambda>(r, s). (map_option (\<lambda>bs. got @ bs) r, s)) (recv_all (len - length got) s))"
  by pat_completeness auto
termination
proof (relation "measure fst")
  fix len s x2 a b got
  assume "len \<noteq> 0" "recv_step len s = Some x2" "(a, b) = x2" "a = Some got"
  then show "((len - length got, b), (len, s)) \<in> measure fst" using recv_step_shrinks [of len s got b] by auto
qed simp

function send_all :: "bytes \<Rightarrow> UnixSocket \<Rightarrow> (bool \<times> UnixSocket) option" where
  "send_all data s =
     (if data = [] then Some (True, s)
      else
        case send_step data s of
          None \<Rightarrow> None
        | Some (None, s) \<Rightarrow> Some (False, s)
        | Some (Some n, s) \<Rightarrow> send_all (drop n data) s)"
  by pat_completeness auto
termination
proof (relation "measure (\<lambda>(data, s). length data)")
  fix data :: bytes and s x2 a b n
  assume "data \<noteq> []" "send_step data s = Some x2" "(a, b) = x2" "a = Some n"
  then show "((drop n data, b), (data, s)) \<in> measure (\<lambda>(data, s). length data)" using send_step_shrinks [of data s n b] by auto
qed simp

declare recv_all.simps [simp del] send_all.simps [simp del]

section \<open>Device state and messages\<close>

record PcieVipState =
  q_sock :: UnixSocket
  q_socket_path :: string
  q_max_transfer :: u32
  q_stopping :: bool
  q_connected :: bool
  q_next_txn_id :: u64
  q_pending_active :: bool
  q_pending_done :: bool
  q_pending_txn_id :: u64
  q_pending_response :: MicsMessage
  q_work_queue :: "MicsMessage list"
  q_clock :: u64
  q_mem :: memory
  q_dma_ok :: "u64 \<Rightarrow> nat \<Rightarrow> bool"
  q_msix :: "u64 list"

definition mics_send :: "MicsHeader \<Rightarrow> bytes \<Rightarrow> PcieVipState \<Rightarrow> (bool \<times> PcieVipState) option" where
  "mics_send h pl s =
     (if \<not> q_connected s then Some (False, s)
      else
        case send_all (mics_encode_header h) (q_sock s) of
          None \<Rightarrow> None
        | Some (ok, k) \<Rightarrow>
            if ok \<and> m_payload_len h \<noteq> 0
            then map_option (\<lambda>(ok, k). (ok, s\<lparr> q_sock := k \<rparr>)) (send_all (take (unat (m_payload_len h)) pl) k)
            else Some (ok, s\<lparr> q_sock := k \<rparr>))"

definition mics_recv :: "PcieVipState \<Rightarrow> (MicsMessage option \<times> PcieVipState) option" where
  "mics_recv s =
     (case recv_all MICS_HEADER_SIZE (q_sock s) of
        None \<Rightarrow> None
      | Some (None, k) \<Rightarrow> Some (None, s\<lparr> q_sock := k \<rparr>)
      | Some (Some w, k) \<Rightarrow>
          (case mics_decode_header w of
             None \<Rightarrow> Some (None, s\<lparr> q_sock := k \<rparr>)
           | Some h \<Rightarrow>
               if m_payload_len h = 0 then Some (Some \<lparr> mh = h, mpayload = [] \<rparr>, s\<lparr> q_sock := k \<rparr>)
               else
                 map_option (\<lambda>(r, k). (map_option (\<lambda>pl. \<lparr> mh = h, mpayload = pl \<rparr>) r, s\<lparr> q_sock := k \<rparr>))
                   (recv_all (unat (m_payload_len h)) k)))"

definition pcie_vip_next_txn :: "PcieVipState \<Rightarrow> u64 \<times> PcieVipState" where
  "pcie_vip_next_txn s = (q_next_txn_id s, s\<lparr> q_next_txn_id := q_next_txn_id s + 1 \<rparr>)"

definition pcie_vip_header :: "PcieVipState \<Rightarrow> u16 \<Rightarrow> u64 \<Rightarrow> u64 \<Rightarrow> u64 \<Rightarrow> u32 \<Rightarrow> u32 \<Rightarrow> u16 \<Rightarrow> u32 \<Rightarrow> MicsHeader" where
  "pcie_vip_header s ty txn addr be plen tlen fl st =
     \<lparr> m_type = ty, m_flags = fl, m_payload_len = plen, m_txn_id = txn, m_sim_timestamp = q_clock s, m_address = addr,
       m_byte_enable = be, m_status = st, m_transfer_len = tlen \<rparr>"

section \<open>The reader thread\<close>

definition reader_dispatch :: "MicsMessage \<Rightarrow> PcieVipState \<Rightarrow> PcieVipState" where
  "reader_dispatch msg s =
     (if m_flags (mh msg) AND MICS_FLAG_RESPONSE \<noteq> 0 then
        if q_pending_active s \<and> m_txn_id (mh msg) = q_pending_txn_id s
        then s\<lparr> q_pending_response := msg, q_pending_done := True \<rparr>
        else s
      else if m_type (mh msg) = 7 \<or> m_type (mh msg) = 9 \<or> m_type (mh msg) = 11
      then s\<lparr> q_work_queue := q_work_queue s @ [msg] \<rparr>
      else s)"

definition reader_exit :: "PcieVipState \<Rightarrow> PcieVipState" where
  "reader_exit s = s\<lparr> q_connected := False \<rparr>"

text \<open>The reader's loop, for at most \<open>n\<close> messages; the flag says whether the thread has ended.\<close>

fun pcie_vip_reader :: "nat \<Rightarrow> PcieVipState \<Rightarrow> (bool \<times> PcieVipState) option" where
  "pcie_vip_reader 0 s = Some (False, s)"
| "pcie_vip_reader (Suc n) s =
     (if q_stopping s then Some (True, reader_exit s)
      else
        case mics_recv s of
          None \<Rightarrow> None
        | Some (None, s) \<Rightarrow> Some (True, reader_exit s)
        | Some (Some msg, s) \<Rightarrow> pcie_vip_reader n (reader_dispatch msg s))"

datatype reader_op = Deliver MicsMessage | ReaderExit

fun reader_do :: "reader_op \<Rightarrow> PcieVipState \<Rightarrow> PcieVipState" where
  "reader_do (Deliver msg) s = reader_dispatch msg s"
| "reader_do ReaderExit s = reader_exit s"

section \<open>Requests\<close>

fun rpc_wait :: "reader_op list list \<Rightarrow> PcieVipState \<Rightarrow> PcieVipState" where
  "rpc_wait batches s =
     (if q_connected s \<and> \<not> q_pending_done s then
        case batches of
          [] \<Rightarrow> s
        | ops # rest \<Rightarrow> rpc_wait rest (fold reader_do ops s)
      else s)"

declare rpc_wait.simps [simp del]

definition rpc_finish :: "PcieVipState \<Rightarrow> PcieVipState" where
  "rpc_finish s = s\<lparr> q_pending_active := False, q_pending_done := False \<rparr>"

definition pcie_vip_rpc ::
  "MicsHeader \<Rightarrow> bytes \<Rightarrow> u16 \<Rightarrow> reader_op list list \<Rightarrow> PcieVipState \<Rightarrow> (MicsMessage option \<times> PcieVipState) option" where
  "pcie_vip_rpc req pl expected batches s =
     (if \<not> q_connected s \<or> q_pending_active s then Some (None, s)
      else
        let s = s\<lparr> q_pending_active := True, q_pending_done := False, q_pending_txn_id := m_txn_id req,
                   q_pending_response := zero_message \<rparr>
        in case mics_send req pl s of
             None \<Rightarrow> None
           | Some (False, s) \<Rightarrow> Some (None, rpc_finish s)
           | Some (True, s) \<Rightarrow>
               let s = rpc_wait batches s
               in if q_pending_done s \<and> m_type (mh (q_pending_response s)) = expected \<and> m_status (mh (q_pending_response s)) = 0
                  then Some (Some (q_pending_response s), rpc_finish (s\<lparr> q_pending_response := zero_message \<rparr>))
                  else Some (None, rpc_finish s))"

section \<open>The endpoint's DMA and interrupts\<close>

definition pcie_vip_send_status :: "MicsMessage \<Rightarrow> u16 \<Rightarrow> u32 \<Rightarrow> bytes \<Rightarrow> PcieVipState \<Rightarrow> PcieVipState option" where
  "pcie_vip_send_status req ty st pl s =
     map_option snd
       (mics_send (pcie_vip_header s ty (m_txn_id (mh req)) (m_address (mh req)) 0 (of_nat (length pl)) (m_transfer_len (mh req))
                     MICS_FLAG_RESPONSE st) pl s)"

definition serve_work :: "MicsMessage \<Rightarrow> PcieVipState \<Rightarrow> PcieVipState option" where
  "serve_work w s =
     (let ty = m_type (mh w); len = m_transfer_len (mh w); addr = m_address (mh w)
      in if ty = 7 then
           if len \<noteq> 0 \<and> len \<le> q_max_transfer s \<and> q_dma_ok s addr (unat len)
           then pcie_vip_send_status w 8 0 (mem_load (q_mem s) addr (unat len)) s
           else pcie_vip_send_status w 8 6 [] s
         else if ty = 9 then
           if len \<noteq> 0 \<and> len \<le> q_max_transfer s \<and> len = m_payload_len (mh w) \<and> q_dma_ok s addr (unat len)
           then pcie_vip_send_status w 10 0 [] (s\<lparr> q_mem := mem_store (q_mem s) addr (take (unat len) (mpayload w)) \<rparr>)
           else pcie_vip_send_status w 10 6 [] s
         else if ty = 11 then Some (if addr < 4 then s\<lparr> q_msix := q_msix s @ [addr] \<rparr> else s)
         else Some s)"

fun serve_all :: "MicsMessage list \<Rightarrow> PcieVipState \<Rightarrow> PcieVipState option" where
  "serve_all [] s = Some s"
| "serve_all (w # ws) s = (case serve_work w s of None \<Rightarrow> None | Some s \<Rightarrow> serve_all ws s)"

text \<open>
  The loop pops until the queue is empty. Work that arrives meanwhile is popped by the same run or by the one its
  arrival schedules, in both cases after the work that was there, so a run is described on the queue it finds.
\<close>

definition pcie_vip_process_work :: "PcieVipState \<Rightarrow> PcieVipState option" where
  "pcie_vip_process_work s = serve_all (q_work_queue s) (s\<lparr> q_work_queue := [] \<rparr>)"

section \<open>BAR accesses\<close>

definition byte_enables :: "u64 \<Rightarrow> nat \<Rightarrow> u64" where
  "byte_enables addr n = push_bit (unat (addr AND 7)) (push_bit n 1 - 1)"

definition pcie_vip_mmio_read :: "u64 \<Rightarrow> nat \<Rightarrow> reader_op list list \<Rightarrow> PcieVipState \<Rightarrow> (u64 \<times> PcieVipState) option" where
  "pcie_vip_mmio_read addr n batches s =
     (let (txn, s) = pcie_vip_next_txn s;
          h = pcie_vip_header s 3 txn addr (byte_enables addr n) 0 (of_nat n) 0 0
      in map_option
           (\<lambda>(r, s). (case r of
               None \<Rightarrow> - 1
             | Some rsp \<Rightarrow>
                 if m_payload_len (mh rsp) = of_nat n
                 then fold (\<lambda>i v. v OR push_bit (i * 8) (ucast (mpayload rsp ! i))) [0..<n] 0
                 else - 1, s))
           (pcie_vip_rpc h [] 4 batches s))"

definition pcie_vip_mmio_write :: "u64 \<Rightarrow> u64 \<Rightarrow> nat \<Rightarrow> reader_op list list \<Rightarrow> PcieVipState \<Rightarrow> PcieVipState option" where
  "pcie_vip_mmio_write addr val n batches s =
     (let (txn, s) = pcie_vip_next_txn s;
          h = pcie_vip_header s 5 txn addr (byte_enables addr n) (of_nat n) (of_nat n) 0 0
      in map_option snd (pcie_vip_rpc h (map (\<lambda>i. ucast (drop_bit (i * 8) val)) [0..<n]) 6 batches s))"

definition pcie_vip_reset :: "reader_op list list \<Rightarrow> PcieVipState \<Rightarrow> PcieVipState option" where
  "pcie_vip_reset batches s =
     (if \<not> q_connected s then Some s
      else
        let (txn, s) = pcie_vip_next_txn s
        in map_option snd (pcie_vip_rpc (pcie_vip_header s 12 txn 0 0 0 0 0 0) [] 13 batches s))"

section \<open>Realisation and removal\<close>

record qdev =
  qs :: PcieVipState
  qd_bh :: bool
  qd_msix :: bool
  qd_blocker :: bool
  qd_reader :: bool

text \<open>Each attempt: the descriptor \<open>socket\<close> returns, with the connection behind it, and whether \<open>connect\<close> succeeds; the end of the list is the deadline.\<close>

fun connect_loop :: "(UnixSocket \<times> bool) list \<Rightarrow> PcieVipState \<Rightarrow> os \<Rightarrow> bool \<times> PcieVipState \<times> os" where
  "connect_loop [] s w = (False, s, w)"
| "connect_loop ((k, ok) # rest) s w =
     (if fd k < 0 then (False, s\<lparr> q_sock := k \<rparr>, w)
      else if ok then (True, s\<lparr> q_sock := k, q_connected := True \<rparr>, w\<lparr> open_fds := insert (fd k) (open_fds w) \<rparr>)
      else connect_loop rest (s\<lparr> q_sock := k\<lparr> fd := -1 \<rparr> \<rparr>) (sys_close (fd k) (w\<lparr> open_fds := insert (fd k) (open_fds w) \<rparr>)))"

definition pcie_vip_connect :: "(UnixSocket \<times> bool) list \<Rightarrow> PcieVipState \<Rightarrow> os \<Rightarrow> bool \<times> PcieVipState \<times> os" where
  "pcie_vip_connect attempts s w = (if sun_path_size \<le> length (q_socket_path s) then (False, s, w) else connect_loop attempts s w)"

definition pcie_vip_handshake :: "PcieVipState \<Rightarrow> (bool \<times> PcieVipState) option" where
  "pcie_vip_handshake s =
     (let (txn, s) = pcie_vip_next_txn s
      in case mics_send (pcie_vip_header s 1 txn 0 0 0 0 0 0) [] s of
           None \<Rightarrow> None
         | Some (False, s) \<Rightarrow> Some (False, s)
         | Some (True, s) \<Rightarrow>
             map_option (\<lambda>(r, s). (case r of None \<Rightarrow> False | Some m \<Rightarrow> m_type (mh m) = 2 \<and> m_txn_id (mh m) = txn \<and> m_status (mh m) = 0, s))
               (mics_recv s))"

definition err_bh :: "qdev \<Rightarrow> os \<Rightarrow> (bool \<times> qdev \<times> os) option" where
  "err_bh d w = Some (False, d\<lparr> qd_bh := False \<rparr>, w)"

definition err_msix :: "qdev \<Rightarrow> os \<Rightarrow> (bool \<times> qdev \<times> os) option" where
  "err_msix d w = err_bh (d\<lparr> qd_msix := False \<rparr>) w"

definition err_socket :: "qdev \<Rightarrow> os \<Rightarrow> (bool \<times> qdev \<times> os) option" where
  "err_socket d w =
     err_msix (d\<lparr> qs := (qs d)\<lparr> q_connected := False, q_sock := (q_sock (qs d))\<lparr> fd := -1 \<rparr> \<rparr> \<rparr>) (sys_close (fd (q_sock (qs d))) w)"

definition pcie_vip_realize ::
  "bool \<Rightarrow> bool \<Rightarrow> (UnixSocket \<times> bool) list \<Rightarrow> bool \<Rightarrow> qdev \<Rightarrow> os \<Rightarrow> (bool \<times> qdev \<times> os) option" where
  "pcie_vip_realize cap_ok msix_ok attempts blocker_ok d w =
     (let d = d\<lparr> qs := (qs d)\<lparr> q_sock := (q_sock (qs d))\<lparr> fd := -1 \<rparr>, q_next_txn_id := 1, q_work_queue := [] \<rparr>, qd_bh := True \<rparr>
      in if \<not> cap_ok then err_bh d w
         else if \<not> msix_ok then err_bh d w
         else
           let d = d\<lparr> qd_msix := True \<rparr>;
               (ok, s, w) = pcie_vip_connect attempts (qs d) w
           in if \<not> ok then err_msix (d\<lparr> qs := s \<rparr>) w
              else
                case pcie_vip_handshake s of
                  None \<Rightarrow> None
                | Some (ok, s) \<Rightarrow>
                    let d = d\<lparr> qs := s \<rparr>
                    in if \<not> ok then err_msix d w
                       else if \<not> blocker_ok then err_socket d w
                       else Some (True, d\<lparr> qd_blocker := True, qd_reader := True \<rparr>, w))"

definition pcie_vip_exit :: "qdev \<Rightarrow> os \<Rightarrow> qdev \<times> os" where
  "pcie_vip_exit d w =
     (let s = (qs d)\<lparr> q_stopping := True \<rparr>;
          joined = q_connected s \<or> 0 \<le> fd (q_sock s);
          w = (if 0 \<le> fd (q_sock s) then sys_close (fd (q_sock s)) w else w);
          s = s\<lparr> q_connected := False, q_sock := (if 0 \<le> fd (q_sock s) then (q_sock s)\<lparr> fd := -1 \<rparr> else q_sock s),
                 q_work_queue := [], q_pending_response := zero_message \<rparr>
      in (d\<lparr> qs := s, qd_reader := (if joined then False else qd_reader d), qd_blocker := False, qd_bh := False, qd_msix := False \<rparr>, w))"

section \<open>The two codecs are the same\<close>

text \<open>The header as the C++ side has it.\<close>

definition header_of :: "MicsHeader \<Rightarrow> Header" where
  "header_of h = \<lparr> magic = kProtocolMagic, version = kProtocolVersion, msg_type = m_type h, flags = m_flags h, header_len = 64,
     payload_len = m_payload_len h, txn_id = m_txn_id h, sim_timestamp = m_sim_timestamp h, address = m_address h,
     byte_enable = m_byte_enable h, status = m_status h, reserved = 0, transfer_len = m_transfer_len h, reserved2 = 0 \<rparr>"

definition mics_of :: "Header \<Rightarrow> MicsHeader" where
  "mics_of h = \<lparr> m_type = msg_type h, m_flags = flags h, m_payload_len = payload_len h, m_txn_id = txn_id h,
     m_sim_timestamp = sim_timestamp h, m_address = address h, m_byte_enable = byte_enable h, m_status = status h,
     m_transfer_len = transfer_len h \<rparr>"

lemma mics_of_header_of [simp]: "mics_of (header_of h) = h"
  by (simp add: mics_of_def header_of_def)

lemmas byte_mask = byte_of_mask [unfolded byte_of_def]

lemma put_le_Put: "put_le16 i v p = PutU16 p i v" "put_le32 i w p = PutU32 p i w"
  using byte_mask [of 0 v] byte_mask [of 1 v] byte_mask [of 0 w] byte_mask [of 1 w] byte_mask [of 2 w] byte_mask [of 3 w]
  by (simp_all add: put_le16_def put_le32_def PutU16_def PutU32_def)

lemma le_bytes_halves: "le_bytes 8 (v :: u64) = le_bytes 4 (ucast v :: u32) @ le_bytes 4 (ucast (drop_bit 32 v) :: u32)"
proof (rule nth_equalityI)
  fix i assume "i < length (le_bytes 8 v)"
  then have i: "i < 8" by simp
  show "le_bytes 8 v ! i = (le_bytes 4 (ucast v :: u32) @ le_bytes 4 (ucast (drop_bit 32 v) :: u32)) ! i"
  proof (cases "i < 4")
    case True
    then show ?thesis by (auto simp: nth_append intro!: bit_word_eqI simp: bit_byte_of bit_simps)
  next
    case False
    then obtain j where j: "i = 4 + j" "j < 4" using i by (metis add_less_cancel_left le_add_diff_inverse not_less numeral_Bit0)
    then show ?thesis by (auto simp: nth_append intro!: bit_word_eqI simp: bit_byte_of bit_simps algebra_simps)
  qed
qed simp

lemma overwrite_split:
  assumes "p + length xs + length ys \<le> length buf"
  shows "overwrite (overwrite buf p xs) (p + length xs) ys = overwrite buf p (xs @ ys)"
  using assms by (simp add: overwrite_def ac_simps)

lemma put_le64_Put: "i + 8 \<le> length p \<Longrightarrow> put_le64 i v p = PutU64 p i v"
  using overwrite_split [of i "le_bytes 4 (ucast v :: u32)" "le_bytes 4 (ucast (drop_bit 32 v) :: u32)" p]
  by (simp add: put_le64_def put_le_Put PutU32_overwrite PutU64_overwrite le_bytes_halves)

lemma get_le_Get: "get_le16 p i = GetU16 p i" "get_le32 p i = GetU32 p i"
  by (simp_all add: get_le16_def get_le32_def GetU16_def GetU32_def)

lemma get_le64_Get:
  assumes "i + 8 \<le> length p"
  shows "get_le64 p i = GetU64 p i"
proof -
  have "take 8 (drop i p) = take 4 (drop i p) @ take 4 (drop (i + 4) p)"
    using take_add [of 4 4 "drop i p"] by (simp add: add.commute)
  moreover have "(le_value (xs @ ys) :: u64) = ucast (le_value xs :: u32) OR push_bit 32 (ucast (le_value ys :: u32))"
    if "length xs = 4" "length ys = 4" for xs ys
  proof (rule bit_word_eqI)
    fix k assume k: "k < LENGTH(64)"
    show "bit (le_value (xs @ ys) :: u64) k = bit (ucast (le_value xs :: u32) OR push_bit 32 (ucast (le_value ys :: u32)) :: u64) k"
    proof (cases "k < 32")
      case True
      then have "k div 8 < 4" by simp
      with True that show ?thesis by (simp add: bit_simps bit_le_value nth_append)
    next
      case False
      then obtain j where j: "k = 32 + j" "j < 32" using k by (metis add_less_cancel_left le_add_diff_inverse len_num1 len_bit0 not_less numeral_Bit0 numeral_One mult_2)
      have "(32 + j) div 8 = 4 + j div 8" "(32 + j) mod 8 = j mod 8" by presburger+
      with j that show ?thesis by (simp add: bit_simps bit_le_value nth_append)
    qed
  qed
  ultimately show ?thesis
    using assms by (simp add: get_le64_def get_le_Get GetU32_le_value GetU64_le_value)
qed

lemma overwrite_gap:
  "length xs = p \<Longrightarrow> length bs + g \<le> n \<Longrightarrow>
     overwrite (xs @ replicate n z) (p + g) bs = (xs @ replicate g z @ bs) @ replicate (n - g - length bs) z"
  by (simp add: overwrite_def min_def)

lemma le_bytes_zero: "le_bytes n (0 :: 'a::len word) = replicate n 0"
  by (auto simp: list_eq_iff_nth_eq byte_of_def)

lemma mics_encode_layout: "mics_encode_header h = SerializeHeader (header_of h)"
proof -
  let ?p = "le_bytes 4 MICS_MAGIC @ le_bytes 2 MICS_VERSION @ le_bytes 2 (m_type h) @ le_bytes 2 (m_flags h) @ le_bytes 2 (64 :: u16) @
    le_bytes 4 (m_payload_len h) @ le_bytes 8 (m_txn_id h) @ le_bytes 8 (m_sim_timestamp h) @ le_bytes 8 (m_address h) @
    le_bytes 8 (m_byte_enable h) @ le_bytes 4 (m_status h)"
  have "mics_encode_header h = put_le32 56 (m_transfer_len h) (?p @ replicate 12 0)"
    unfolding mics_encode_header_def Let_def MICS_HEADER_SIZE_def
    by (simp add: put_le_Put put_le64_Put byte_simps overwrite_zeros overwrite_zeros_start del: append_assoc)
      (simp only: append_assoc)
  also have "\<dots> = (?p @ replicate 4 0 @ le_bytes 4 (m_transfer_len h)) @ replicate 4 0"
    using overwrite_gap [of ?p 52 "le_bytes 4 (m_transfer_len h)" 4 12 0] by (simp add: put_le_Put PutU32_overwrite)
  also have "\<dots> = SerializeHeader (header_of h)"
    by (simp add: SerializeHeader_layout wire_layout_def header_of_def le_bytes_zero MICS_MAGIC_def MICS_VERSION_def
        kProtocolMagic_def kProtocolVersion_def)
  finally show ?thesis .
qed

lemma mics_decode_agrees:
  assumes "length p = 64"
  shows "mics_decode_header p = (case DeserializeHeader p of Inl _ \<Rightarrow> None | Inr h \<Rightarrow> Some (mics_of h))"
  using assms
  by (auto simp: mics_decode_header_def DeserializeHeader_def get_le_Get get_le64_Get mics_of_def Let_def MICS_MAGIC_def MICS_VERSION_def
      MICS_HEADER_SIZE_def MICS_MAX_PAYLOAD_def kProtocolMagic_def kProtocolVersion_def kHeaderSize_def kMaxPayloadSize_def word_unat_eq_iff)

section \<open>The socket loops\<close>

lemma send_step_effect:
  assumes "send_step data s = Some (r, s')"
  shows "tx s' = tx s @ take (case r of None \<Rightarrow> 0 | Some n \<Rightarrow> n) data \<and> rx s' = rx s \<and> fd s' = fd s"
  using assms by (auto simp: send_step_def Let_def split: option.splits prod.splits if_splits)

lemma send_all_result:
  assumes "send_all data s = Some (ok, s')"
  shows "\<exists>k. k \<le> length data \<and> tx s' = tx s @ take k data \<and> (ok \<longleftrightarrow> k = length data) \<and> rx s' = rx s \<and> fd s' = fd s"
  using assms
proof (induction data s rule: send_all.induct)
  case (1 data s)
  show ?case
  proof (cases "data = []")
    case True
    with "1.prems" show ?thesis by (auto simp: send_all.simps)
  next
    case False
    with "1.prems" obtain r s1 where st: "send_step data s = Some (r, s1)" by (auto simp: send_all.simps [of data s] split: option.splits)
    note eff = send_step_effect [OF st]
    show ?thesis
    proof (cases r)
      case None
      with "1.prems" False st eff show ?thesis by (auto simp: send_all.simps [of data s])
    next
      case (Some n)
      with "1.prems" False st have rest: "send_all (drop n data) s1 = Some (ok, s')" by (simp add: send_all.simps [of data s])
      have n: "0 < n" "n \<le> length data" using send_step_shrinks st Some by blast+
      from "1.IH" [OF False st [unfolded Some] refl refl rest] obtain k where k: "k \<le> length data - n" "tx s' = tx s1 @ take k (drop n data)"
          "ok \<longleftrightarrow> k = length data - n" "rx s' = rx s1" "fd s' = fd s1" by auto
      have "tx s' = tx s @ take (n + k) data" using k(2) eff Some by (simp add: take_add)
      with k eff n show ?thesis by (intro exI [of _ "n + k"]) auto
    qed
  qed
qed

lemma take_drop_min: "take k xs @ drop (min (length xs) k) xs = xs"
  by (cases "k \<le> length xs") (auto simp: min_def)

lemma recv_step_effect:
  assumes "recv_step len s = Some (r, s')"
  shows "rx s = (case r of None \<Rightarrow> [] | Some got \<Rightarrow> got) @ rx s' \<and> tx s' = tx s \<and> fd s' = fd s"
  using assms by (auto simp: recv_step_def Let_def take_drop_min split: option.splits prod.splits if_splits)

lemma recv_all_result:
  assumes "recv_all len s = Some (Some bs, s')"
  shows "length bs = len \<and> rx s = bs @ rx s' \<and> tx s' = tx s \<and> fd s' = fd s"
  using assms
proof (induction len s arbitrary: bs rule: recv_all.induct)
  case (1 len s)
  show ?case
  proof (cases "len = 0")
    case True
    with "1.prems" show ?thesis by (auto simp: recv_all.simps)
  next
    case False
    with "1.prems" obtain got s1 where st: "recv_step len s = Some (Some got, s1)"
      by (auto simp: recv_all.simps [of len s] split: option.splits)
    with "1.prems" False obtain r where r: "recv_all (len - length got) s1 = Some (Some r, s')" "bs = got @ r"
      by (auto simp: recv_all.simps [of len s])
    from "1.IH" [OF False st refl refl r(1)] recv_step_effect [OF st] recv_step_shrinks [OF st] r(2) show ?thesis by auto
  qed
qed

text \<open>A kernel that interrupts nothing and moves at least one byte per call, for \<open>n\<close> receives and \<open>m\<close> sends.\<close>

definition smooth :: "nat \<Rightarrow> nat \<Rightarrow> UnixSocket \<Rightarrow> bool" where
  "smooth n m s \<longleftrightarrow>
     (\<forall>p \<in> set (polls s). \<exists>re. p = PollReady re \<and> re AND (POLLERR OR POLLHUP OR POLLNVAL) = 0) \<and>
     (\<forall>r \<in> set (recvs s). \<exists>k>0. r = RecvGot k) \<and> (\<forall>x \<in> set (sends s). \<exists>k>0. x = SendAccepted k) \<and>
     n \<le> length (recvs s) \<and> m \<le> length (sends s) \<and> n + m \<le> length (polls s)"

lemma smooth_mono: "smooth n m s \<Longrightarrow> n' \<le> n \<Longrightarrow> m' \<le> m \<Longrightarrow> smooth n' m' s"
  by (auto simp: smooth_def)

lemma smooth_send_step:
  assumes "smooth n (Suc m) s" "data \<noteq> []"
  shows "\<exists>k s'. send_step data s = Some (Some k, s') \<and> smooth n m s'"
proof -
  obtain p ps where p: "polls s = p # ps" using assms(1) by (cases "polls s") (auto simp: smooth_def)
  obtain x xs where x: "sends s = x # xs" using assms(1) by (cases "sends s") (auto simp: smooth_def)
  from assms(1) p x obtain re k where "p = PollReady re" "re AND (POLLERR OR POLLHUP OR POLLNVAL) = 0" "x = SendAccepted k" "0 < k"
    by (auto simp: smooth_def)
  with p x assms show ?thesis by (auto simp: send_step_def smooth_def Let_def)
qed

lemma smooth_send_all:
  assumes "smooth n (length data + m) s"
  shows "\<exists>s'. send_all data s = Some (True, s') \<and> smooth n m s'"
  using assms
proof (induction data s rule: send_all.induct)
  case (1 data s)
  show ?case
  proof (cases "data = []")
    case True
    with "1.prems" show ?thesis by (simp add: send_all.simps)
  next
    case False
    then obtain l where l: "length data = Suc l" by (cases data) auto
    with "1.prems" False obtain k s1 where st: "send_step data s = Some (Some k, s1)" "smooth n (l + m) s1"
      using smooth_send_step [of n "l + m" s data] by auto
    have "0 < k" "k \<le> length data" using send_step_shrinks [OF st(1)] by auto
    then have "smooth n (length (drop k data) + m) s1" using st(2) l by (elim smooth_mono) auto
    with "1.IH" [OF False st(1) refl refl] False st(1) show ?thesis by (simp add: send_all.simps [of data s])
  qed
qed

section \<open>Sending and receiving messages\<close>

definition message_of :: "MicsHeader \<Rightarrow> bytes \<Rightarrow> Message" where
  "message_of h pl = \<lparr> header = header_of h, payload = pl \<rparr>"

lemma mics_send_ok:
  assumes "mics_send h pl s = Some (True, s')" "length pl = unat (m_payload_len h)"
  shows "\<exists>k. s' = s\<lparr>q_sock := k\<rparr> \<and> tx k = tx (q_sock s) @ wire (message_of h pl) \<and> rx k = rx (q_sock s)"
proof -
  obtain ok1 k1 where h1: "send_all (mics_encode_header h) (q_sock s) = Some (ok1, k1)"
    using assms(1) by (auto simp: mics_send_def split: if_splits option.splits)
  have ok1: "ok1" using assms(1) h1 by (auto simp: mics_send_def split: if_splits)
  from send_all_result [OF h1] ok1 have 1: "tx k1 = tx (q_sock s) @ SerializeHeader (header_of h)" "rx k1 = rx (q_sock s)"
    by (auto simp: mics_encode_layout)
  show ?thesis
  proof (cases "m_payload_len h = 0")
    case True
    with assms h1 ok1 1 show ?thesis by (auto simp: mics_send_def wire_def message_of_def SerializeMessage_def split: if_splits)
  next
    case False
    with assms h1 ok1 obtain k2 where h2: "send_all pl k1 = Some (True, k2)" "s' = s\<lparr>q_sock := k2\<rparr>"
      by (auto simp: mics_send_def split: if_splits)
    from send_all_result [OF h2(1)] 1 h2(2) show ?thesis by (auto simp: wire_def message_of_def SerializeMessage_def)
  qed
qed

lemma smooth_mics_send:
  assumes "q_connected s" "smooth n (64 + length pl + m) (q_sock s)" "length pl = unat (m_payload_len h)"
  shows "\<exists>k. mics_send h pl s = Some (True, s\<lparr>q_sock := k\<rparr>) \<and> tx k = tx (q_sock s) @ wire (message_of h pl) \<and>
    rx k = rx (q_sock s) \<and> smooth n m k"
proof -
  have "smooth n (length (mics_encode_header h) + (length pl + m)) (q_sock s)"
    using assms(2) by (simp add: mics_encode_layout add.assoc)
  then obtain k1 where k1: "send_all (mics_encode_header h) (q_sock s) = Some (True, k1)" "smooth n (length pl + m) k1"
    using smooth_send_all by blast
  then obtain k2 where k2: "send_all pl k1 = Some (True, k2)" "smooth n m k2" using smooth_send_all by blast
  have "\<exists>k. mics_send h pl s = Some (True, s\<lparr>q_sock := k\<rparr>) \<and> smooth n m k"
    using assms(1,3) k1 k2 by (cases "m_payload_len h = 0") (auto simp: mics_send_def send_all.simps)
  then obtain k where k: "mics_send h pl s = Some (True, s\<lparr>q_sock := k\<rparr>)" "smooth n m k" by blast
  from mics_send_ok [OF k(1) assms(3)] obtain k' where k': "s\<lparr>q_sock := k\<rparr> = s\<lparr>q_sock := k'\<rparr>"
    "tx k' = tx (q_sock s) @ wire (message_of h pl)" "rx k' = rx (q_sock s)" by blast
  from k'(1) have "k' = k" by (metis PcieVipState.select_convs(1) PcieVipState.surjective PcieVipState.update_convs(1))
  with k k' show ?thesis by blast
qed

lemma smooth_recv_step:
  assumes "smooth (Suc n) m s" "0 < len" "rx s \<noteq> []"
  shows "\<exists>got s'. recv_step len s = Some (Some got, s') \<and> smooth n m s'"
proof -
  obtain p ps where p: "polls s = p # ps" using assms(1) by (cases "polls s") (auto simp: smooth_def)
  obtain x xs where x: "recvs s = x # xs" using assms(1) by (cases "recvs s") (auto simp: smooth_def)
  from assms(1) p x obtain re k where "p = PollReady re" "re AND (POLLERR OR POLLHUP OR POLLNVAL) = 0" "x = RecvGot k" "0 < k"
    by (auto simp: smooth_def)
  with p x assms show ?thesis by (auto simp: recv_step_def smooth_def Let_def)
qed

lemma smooth_recv_all:
  assumes "smooth (len + n) m s" "len \<le> length (rx s)"
  shows "\<exists>bs s'. recv_all len s = Some (Some bs, s') \<and> smooth n m s'"
  using assms
proof (induction len s rule: recv_all.induct)
  case (1 len s)
  show ?case
  proof (cases "len = 0")
    case True
    with "1.prems" show ?thesis by (simp add: recv_all.simps)
  next
    case False
    then obtain l where l: "len = Suc l" by (cases len) auto
    have "rx s \<noteq> []" using "1.prems"(2) l by auto
    with l "1.prems"(1) obtain got s1 where st: "recv_step len s = Some (Some got, s1)" "smooth (l + n) m s1"
      using smooth_recv_step [of "l + n" m s len] by auto
    note eff = recv_step_effect [OF st(1)] and shr = recv_step_shrinks [OF st(1)]
    have "smooth (len - length got + n) m s1" using st(2) l shr by (elim smooth_mono) (cases got, auto)
    moreover have "len - length got \<le> length (rx s1)" using "1.prems"(2) eff by simp
    ultimately obtain bs s' where "recv_all (len - length got) s1 = Some (Some bs, s')" "smooth n m s'"
      using "1.IH" [OF False st(1) refl refl] by blast
    with False st(1) show ?thesis by (simp add: recv_all.simps [of len s])
  qed
qed

definition mics_msg_of :: "Message \<Rightarrow> MicsMessage" where
  "mics_msg_of m = \<lparr> mh = mics_of (header m), mpayload = payload m \<rparr>"

lemma mics_of_simps [simp]:
  "m_type (mics_of h) = msg_type h" "m_flags (mics_of h) = flags h" "m_payload_len (mics_of h) = payload_len h"
  "m_txn_id (mics_of h) = txn_id h" "m_address (mics_of h) = address h" "m_status (mics_of h) = status h"
  "m_transfer_len (mics_of h) = transfer_len h"
  by (simp_all add: mics_of_def)

lemma mics_msg_of_simps [simp]: "mh (mics_msg_of m) = mics_of (header m)" "mpayload (mics_msg_of m) = payload m"
  by (simp_all add: mics_msg_of_def)

lemma wire_prefix:
  assumes "bs @ r = wire m @ rest" "length bs = 64"
  shows "bs = SerializeHeader (header m)" "r = payload m @ rest"
proof -
  have "bs = take 64 (bs @ r)" using assms(2) by simp
  then show "bs = SerializeHeader (header m)" by (simp add: assms(1) wire_def SerializeMessage_def)
  with assms(1) show "r = payload m @ rest" by (simp add: wire_def SerializeMessage_def)
qed

lemma mics_recv_complete:
  assumes "valid_message m" "rx (q_sock s) = wire m @ rest" "smooth (64 + length (payload m) + n) j (q_sock s)"
  shows "\<exists>k. mics_recv s = Some (Some (mics_msg_of m), s\<lparr>q_sock := k\<rparr>) \<and> rx k = rest \<and> tx k = tx (q_sock s) \<and> smooth n j k"
proof -
  have "smooth (64 + (length (payload m) + n)) j (q_sock s)" using assms(3) by (simp add: add.assoc)
  with smooth_recv_all [of 64 "length (payload m) + n" j "q_sock s"] assms(2) obtain bs k1 where
    r1: "recv_all 64 (q_sock s) = Some (Some bs, k1)" "smooth (length (payload m) + n) j k1" by auto
  note e1 = recv_all_result [OF r1(1)]
  from wire_prefix [of bs "rx k1" m rest] e1 assms(2) have bs: "bs = SerializeHeader (header m)" and rx1: "rx k1 = payload m @ rest"
    by auto
  have plen: "unat (payload_len (header m)) = length (payload m)" and vh: "valid_header (header m)"
    using assms(1) by (simp_all add: valid_message_def)
  have dec: "mics_decode_header bs = Some (mics_of (header m))"
    using mics_decode_agrees [of bs] DeserializeHeader_append [of "header m" "[]"] vh e1 bs by simp
  from smooth_recv_all [OF r1(2)] rx1 obtain pl k2 where
    r2: "recv_all (length (payload m)) k1 = Some (Some pl, k2)" "smooth n j k2" by auto
  from recv_all_result [OF r2(1)] rx1 have e2: "pl = payload m" "rx k2 = rest" "tx k2 = tx k1" by auto
  show ?thesis
  proof (cases "payload m = []")
    case True
    then have "payload_len (header m) = 0" using plen by (simp add: unat_eq_zero)
    with True r1 dec e1 rx1 show ?thesis
      by (auto simp: mics_recv_def MICS_HEADER_SIZE_def mics_msg_of_def)
  next
    case False
    then have "payload_len (header m) \<noteq> 0" using plen by auto
    with r1 r2 dec e1 e2 plen show ?thesis by (auto simp: mics_recv_def MICS_HEADER_SIZE_def mics_msg_of_def)
  qed
qed

lemma mics_recv_sound:
  assumes "mics_recv s = Some (Some r, s')"
  shows "\<exists>m k. valid_message m \<and> r = mics_msg_of m \<and> s' = s\<lparr>q_sock := k\<rparr> \<and> rx (q_sock s) = wire m @ rx k \<and> tx k = tx (q_sock s)"
proof -
  from assms obtain bs k1 where r1: "recv_all 64 (q_sock s) = Some (Some bs, k1)"
    by (auto simp: mics_recv_def MICS_HEADER_SIZE_def split: option.splits)
  note e1 = recv_all_result [OF r1]
  from assms r1 obtain mhd where "mics_decode_header bs = Some mhd" by (auto simp: mics_recv_def MICS_HEADER_SIZE_def split: option.splits)
  with mics_decode_agrees [of bs] e1 obtain h where h: "DeserializeHeader bs = Inr h" "mhd = mics_of h" by (auto split: sum.splits)
  note hd = DeserializeHeader_Inr [OF h(1)]
  have dec: "mics_decode_header bs = Some (mics_of h)" using h mics_decode_agrees [of bs] e1 by simp
  have bs: "SerializeHeader h = bs" using hd(3) e1 by simp
  show ?thesis
  proof (cases "payload_len h = 0")
    case True
    with assms r1 dec have "r = mics_msg_of \<lparr>header = h, payload = []\<rparr>" "s' = s\<lparr>q_sock := k1\<rparr>"
      by (auto simp: mics_recv_def MICS_HEADER_SIZE_def mics_msg_of_def)
    with True hd(2) bs e1 show ?thesis
      by (intro exI [of _ "\<lparr>header = h, payload = []\<rparr>"] exI [of _ k1]) (simp add: valid_message_def wire_def SerializeMessage_def)
  next
    case False
    with assms r1 dec obtain pl k2 where r2: "recv_all (unat (payload_len h)) k1 = Some (Some pl, k2)"
      and "r = mics_msg_of \<lparr>header = h, payload = pl\<rparr>" "s' = s\<lparr>q_sock := k2\<rparr>"
      by (auto simp: mics_recv_def MICS_HEADER_SIZE_def mics_msg_of_def)
    with hd(2) bs e1 recv_all_result [OF r2] show ?thesis
      by (intro exI [of _ "\<lparr>header = h, payload = pl\<rparr>"] exI [of _ k2]) (simp add: valid_message_def wire_def SerializeMessage_def)
  qed
qed

section \<open>Requests and the reader thread\<close>

text \<open>What the reader may have stored for a request: the response that carries its id, delivered by the reader.\<close>

definition answered_by :: "MicsMessage set \<Rightarrow> PcieVipState \<Rightarrow> bool" where
  "answered_by M s \<longleftrightarrow> (q_pending_done s \<longrightarrow>
     q_pending_response s \<in> M \<and> m_txn_id (mh (q_pending_response s)) = q_pending_txn_id s \<and>
     m_flags (mh (q_pending_response s)) AND MICS_FLAG_RESPONSE \<noteq> 0)"

definition delivered :: "reader_op list \<Rightarrow> MicsMessage set" where
  "delivered ops = {m. Deliver m \<in> set ops}"

lemma reader_do_frame [simp]:
  "q_sock (reader_do x s) = q_sock s" "q_pending_txn_id (reader_do x s) = q_pending_txn_id s"
  "q_pending_active (reader_do x s) = q_pending_active s" "q_mem (reader_do x s) = q_mem s"
  "q_next_txn_id (reader_do x s) = q_next_txn_id s" "q_clock (reader_do x s) = q_clock s"
  "q_max_transfer (reader_do x s) = q_max_transfer s" "q_dma_ok (reader_do x s) = q_dma_ok s" "q_msix (reader_do x s) = q_msix s"
  by (cases x; simp add: reader_dispatch_def reader_exit_def)+

lemma fold_reader_do_frame [simp]:
  "q_sock (fold reader_do ops s) = q_sock s" "q_pending_txn_id (fold reader_do ops s) = q_pending_txn_id s"
  "q_pending_active (fold reader_do ops s) = q_pending_active s" "q_mem (fold reader_do ops s) = q_mem s"
  "q_next_txn_id (fold reader_do ops s) = q_next_txn_id s" "q_clock (fold reader_do ops s) = q_clock s"
  "q_max_transfer (fold reader_do ops s) = q_max_transfer s" "q_dma_ok (fold reader_do ops s) = q_dma_ok s" "q_msix (fold reader_do ops s) = q_msix s"
  by (induction ops arbitrary: s) simp_all

lemma reader_do_answered:
  assumes "answered_by M s" "\<And>m. x = Deliver m \<Longrightarrow> m \<in> M"
  shows "answered_by M (reader_do x s)"
  using assms by (cases x) (auto simp: answered_by_def reader_dispatch_def reader_exit_def)

lemma fold_reader_do_answered: "answered_by M s \<Longrightarrow> delivered ops \<subseteq> M \<Longrightarrow> answered_by M (fold reader_do ops s)"
proof (induction ops arbitrary: s)
  case (Cons x ops)
  then show ?case using reader_do_answered [of M s x] by (auto simp: delivered_def)
qed simp

lemma rpc_wait_answered: "answered_by M s \<Longrightarrow> delivered (concat batches) \<subseteq> M \<Longrightarrow> answered_by M (rpc_wait batches s)"
proof (induction batches arbitrary: s)
  case Nil
  then show ?case by (simp add: rpc_wait.simps)
next
  case (Cons ops batches)
  then have "delivered ops \<subseteq> M" "delivered (concat batches) \<subseteq> M" by (auto simp: delivered_def)
  with Cons.IH [OF fold_reader_do_answered [OF Cons.prems(1)]] Cons.prems(1) show ?case
    by (simp add: rpc_wait.simps [of "ops # batches"])
qed

lemma rpc_wait_frame [simp]:
  "q_sock (rpc_wait batches s) = q_sock s" "q_pending_txn_id (rpc_wait batches s) = q_pending_txn_id s"
  "q_mem (rpc_wait batches s) = q_mem s" "q_next_txn_id (rpc_wait batches s) = q_next_txn_id s"
  by (induction batches arbitrary: s; subst rpc_wait.simps; simp)+

lemma mics_send_frame:
  assumes "mics_send h pl s = Some (ok, s')"
  shows "\<exists>k. s' = s\<lparr>q_sock := k\<rparr>"
  using assms by (auto simp: mics_send_def split: if_splits option.splits) (metis PcieVipState.surjective PcieVipState.update_convs(1))

lemma rpc_result:
  assumes "pcie_vip_rpc req pl expected batches s = Some (Some rsp, s')"
  shows "m_type (mh rsp) = expected \<and> m_status (mh rsp) = 0 \<and> m_txn_id (mh rsp) = m_txn_id req \<and>
    m_flags (mh rsp) AND MICS_FLAG_RESPONSE \<noteq> 0 \<and> rsp \<in> delivered (concat batches) \<and>
    \<not> q_pending_active s' \<and> \<not> q_pending_done s'"
proof -
  let ?s0 = "s\<lparr> q_pending_active := True, q_pending_done := False, q_pending_txn_id := m_txn_id req, q_pending_response := zero_message \<rparr>"
  from assms obtain s1 where snd: "mics_send req pl ?s0 = Some (True, s1)"
    by (auto simp: pcie_vip_rpc_def Let_def split: if_splits option.splits bool.splits)
  from mics_send_frame [OF snd] obtain k where s1: "s1 = ?s0\<lparr>q_sock := k\<rparr>" by blast
  let ?s2 = "rpc_wait batches s1"
  have ans: "answered_by (delivered (concat batches)) ?s2" by (rule rpc_wait_answered) (simp_all add: s1 answered_by_def)
  have id: "q_pending_txn_id ?s2 = m_txn_id req" by (simp add: s1)
  from assms snd have "q_pending_done ?s2" "rsp = q_pending_response ?s2" "m_type (mh rsp) = expected" "m_status (mh rsp) = 0"
    "s' = rpc_finish (?s2\<lparr> q_pending_response := zero_message \<rparr>)"
    by (auto simp: pcie_vip_rpc_def Let_def split: if_splits)
  with ans id show ?thesis by (simp add: answered_by_def rpc_finish_def)
qed

text \<open>What the reader does that does not concern the request \<open>t\<close>, and the messages of a batch it queues for the bottom half.\<close>

fun noise :: "u64 \<Rightarrow> reader_op \<Rightarrow> bool" where
  "noise t (Deliver m) \<longleftrightarrow> m_flags (mh m) AND MICS_FLAG_RESPONSE = 0 \<or> m_txn_id (mh m) \<noteq> t"
| "noise t ReaderExit \<longleftrightarrow> False"

definition is_work :: "MicsMessage \<Rightarrow> bool" where
  "is_work m \<longleftrightarrow> m_flags (mh m) AND MICS_FLAG_RESPONSE = 0 \<and> m_type (mh m) \<in> {7, 9, 11}"

fun works :: "reader_op list \<Rightarrow> MicsMessage list" where
  "works [] = []"
| "works (Deliver m # ops) = (if is_work m then m # works ops else works ops)"
| "works (ReaderExit # ops) = works ops"

lemma works_append [simp]: "works (xs @ ys) = works xs @ works ys"
  by (induction xs rule: works.induct) simp_all

lemma reader_queues: "q_work_queue (fold reader_do ops s) = q_work_queue s @ works ops"
  by (induction ops arbitrary: s rule: works.induct) (auto simp: reader_dispatch_def reader_exit_def is_work_def)

lemma fold_noise:
  assumes "list_all (noise (q_pending_txn_id s)) ops"
  shows "q_connected (fold reader_do ops s) = q_connected s \<and> q_pending_done (fold reader_do ops s) = q_pending_done s"
  using assms
proof (induction ops arbitrary: s)
  case (Cons x ops)
  then have "list_all (noise (q_pending_txn_id (reader_do x s))) ops" by simp
  with Cons.IH [OF this] Cons.prems show ?case by (cases x) (auto simp: reader_dispatch_def)
qed simp

lemma rpc_wait_delivers:
  assumes "q_connected s" "q_pending_active s" "\<not> q_pending_done s" "q_pending_txn_id s = t"
    and "list_all (noise t) (concat pre @ ops)" "m_txn_id (mh rsp) = t" "m_flags (mh rsp) AND MICS_FLAG_RESPONSE \<noteq> 0"
  shows "q_pending_done (rpc_wait (pre @ (ops @ [Deliver rsp]) # post) s) \<and>
    q_pending_response (rpc_wait (pre @ (ops @ [Deliver rsp]) # post) s) = rsp \<and>
    q_work_queue (rpc_wait (pre @ (ops @ [Deliver rsp]) # post) s) = q_work_queue s @ works (concat pre @ ops) \<and>
    q_connected (rpc_wait (pre @ (ops @ [Deliver rsp]) # post) s)"
  using assms
proof (induction pre arbitrary: s)
  case Nil
  let ?s = "fold reader_do ops s"
  have "rpc_wait ((ops @ [Deliver rsp]) # post) s = rpc_wait post (reader_dispatch rsp ?s)"
    using Nil.prems by (simp add: rpc_wait.simps [of "_ # _"])
  moreover have "reader_dispatch rsp ?s = ?s\<lparr>q_pending_response := rsp, q_pending_done := True\<rparr>"
    using Nil.prems by (simp add: reader_dispatch_def)
  moreover have "q_connected ?s" using fold_noise [of s ops] Nil.prems by simp
  ultimately show ?case by (simp add: rpc_wait.simps [of post] reader_queues)
next
  case (Cons b pre)
  let ?s = "fold reader_do b s"
  have "q_connected ?s" "\<not> q_pending_done ?s" using fold_noise [of s b] Cons.prems by simp_all
  with Cons.IH [of ?s] Cons.prems show ?case by (simp add: rpc_wait.simps [of "_ # _"] reader_queues)
qed

lemma rpc_delivers:
  assumes "q_connected s" "\<not> q_pending_active s" "smooth n (64 + length pl + k) (q_sock s)" "length pl = unat (m_payload_len req)"
    and "list_all (noise (m_txn_id req)) (concat pre @ ops)" "m_txn_id (mh rsp) = m_txn_id req"
      "m_flags (mh rsp) AND MICS_FLAG_RESPONSE \<noteq> 0" "m_type (mh rsp) = expected" "m_status (mh rsp) = 0"
  shows "\<exists>s'. pcie_vip_rpc req pl expected (pre @ (ops @ [Deliver rsp]) # post) s = Some (Some rsp, s') \<and>
    tx (q_sock s') = tx (q_sock s) @ wire (message_of req pl) \<and> rx (q_sock s') = rx (q_sock s) \<and> smooth n k (q_sock s') \<and>
    \<not> q_pending_active s' \<and> q_work_queue s' = q_work_queue s @ works (concat pre @ ops) \<and>
    q_next_txn_id s' = q_next_txn_id s \<and> q_connected s'"
proof -
  let ?s0 = "s\<lparr> q_pending_active := True, q_pending_done := False, q_pending_txn_id := m_txn_id req, q_pending_response := zero_message \<rparr>"
  from smooth_mics_send [of ?s0 n pl k req] assms obtain j where
    snd: "mics_send req pl ?s0 = Some (True, ?s0\<lparr>q_sock := j\<rparr>)" "tx j = tx (q_sock s) @ wire (message_of req pl)"
      "rx j = rx (q_sock s)" "smooth n k j"
    by auto
  from rpc_wait_delivers [of "?s0\<lparr>q_sock := j\<rparr>" "m_txn_id req" pre ops rsp post] assms snd show ?thesis
    by (simp add: pcie_vip_rpc_def Let_def rpc_finish_def)
qed

section \<open>BAR accesses\<close>

lemma small_nat_u32:
  assumes "0 < n" "n \<le> 8"
  shows "unat (of_nat n :: u32) = n" "(of_nat n :: u32) \<noteq> 0" "(of_nat n :: u32) \<le> kMaxPayloadSize"
proof -
  have "n \<in> {1, 2, 3, 4, 5, 6, 7, 8}" using assms by auto
  then show "unat (of_nat n :: u32) = n" "(of_nat n :: u32) \<noteq> 0" "(of_nat n :: u32) \<le> kMaxPayloadSize"
    by (auto simp: kMaxPayloadSize_def)
qed

text \<open>The requests as the C++ side would build them.\<close>

definition bar_read_req :: "PcieVipState \<Rightarrow> u64 \<Rightarrow> nat \<Rightarrow> Message" where
  "bar_read_req s addr n = \<lparr> header = MakeHeader kMmioReadReq (q_next_txn_id s) addr (byte_enables addr n) kSuccess (q_clock s) 0 kFlagNone
     (of_nat n), payload = [] \<rparr>"

definition bar_write_req :: "PcieVipState \<Rightarrow> u64 \<Rightarrow> u64 \<Rightarrow> nat \<Rightarrow> Message" where
  "bar_write_req s addr v n = \<lparr> header = MakeHeader kMmioWriteReq (q_next_txn_id s) addr (byte_enables addr n) kSuccess (q_clock s)
     (of_nat n) kFlagNone (of_nat n), payload = le_bytes n v \<rparr>"

lemma bar_req_valid:
  assumes "0 < n" "n \<le> 8"
  shows "valid_message (bar_read_req s addr n)" "valid_message (bar_write_req s addr v n)"
  using small_nat_u32 [OF assms] by (simp_all add: bar_read_req_def bar_write_req_def valid_message_def kMaxPayloadSize_def)

lemma read_header_agrees:
  assumes "0 < n" "n \<le> 8" "q_next_txn_id s = t" "q_clock s' = q_clock s"
  shows "message_of (pcie_vip_header s' 3 t addr (byte_enables addr n) 0 (of_nat n) 0 0) [] = bar_read_req s addr n"
  using small_nat_u32 [OF assms(1,2)] assms(3,4)
  by (simp add: message_of_def header_of_def pcie_vip_header_def bar_read_req_def MakeHeader_def kHeaderSize_def kFlagNone_def)

lemma store_bytes: "n \<le> 8 \<Longrightarrow> map (\<lambda>i. ucast (drop_bit (i * 8) v)) [0..<n] = le_bytes n (v :: u64)"
  using byte_mask [of _ v] by (auto simp: le_bytes_def byte_of_def mult.commute intro!: bit_word_eqI simp: bit_simps)

lemma write_header_agrees:
  assumes "0 < n" "n \<le> 8" "q_next_txn_id s = t" "q_clock s' = q_clock s"
  shows "message_of (pcie_vip_header s' 5 t addr (byte_enables addr n) (of_nat n) (of_nat n) 0 0)
      (map (\<lambda>i. ucast (drop_bit (i * 8) v)) [0..<n]) = bar_write_req s addr v n"
  using small_nat_u32 [OF assms(1,2)] assms(3,4) store_bytes [OF assms(2), of v]
  by (simp add: message_of_def header_of_def pcie_vip_header_def bar_write_req_def MakeHeader_def kHeaderSize_def kFlagNone_def)

text \<open>The response to a request: a message with the response flag, the id, the expected type and no error.\<close>

definition good_response :: "u64 \<Rightarrow> u16 \<Rightarrow> MicsMessage \<Rightarrow> bool" where
  "good_response t ty rsp \<longleftrightarrow> m_txn_id (mh rsp) = t \<and> m_flags (mh rsp) AND MICS_FLAG_RESPONSE \<noteq> 0 \<and> m_type (mh rsp) = ty \<and>
     m_status (mh rsp) = 0"

lemma mmio_read_delivers:
  assumes "0 < n" "n \<le> 8" "q_connected s" "\<not> q_pending_active s" "smooth i (64 + k) (q_sock s)"
    and "list_all (noise (q_next_txn_id s)) (concat pre @ ops)" "good_response (q_next_txn_id s) 4 rsp"
    and "m_payload_len (mh rsp) = of_nat n" "length (mpayload rsp) = n"
  shows "\<exists>s'. pcie_vip_mmio_read addr n (pre @ (ops @ [Deliver rsp]) # post) s = Some (le_value (mpayload rsp), s') \<and>
    tx (q_sock s') = tx (q_sock s) @ wire (bar_read_req s addr n) \<and> q_next_txn_id s' = q_next_txn_id s + 1 \<and>
    q_work_queue s' = q_work_queue s @ works (concat pre @ ops) \<and> \<not> q_pending_active s' \<and> q_connected s' \<and> smooth i k (q_sock s')"
proof -
  let ?s = "s\<lparr>q_next_txn_id := q_next_txn_id s + 1\<rparr>"
  let ?h = "pcie_vip_header ?s 3 (q_next_txn_id s) addr (byte_enables addr n) 0 (of_nat n) 0 0"
  have v: "fold (\<lambda>i v. v OR push_bit (i * 8) (ucast (mpayload rsp ! i))) [0..<n] (0 :: u64) = le_value (mpayload rsp)"
    using fold_or_le_value [of "mpayload rsp" "0 :: u64"] assms(9) by (simp add: mult.commute)
  have "m_txn_id ?h = q_next_txn_id s" "m_payload_len ?h = 0" by (simp_all add: pcie_vip_header_def)
  with rpc_delivers [of ?s i "[]" k ?h pre ops rsp 4 post] assms obtain s' where
    "pcie_vip_rpc ?h [] 4 (pre @ (ops @ [Deliver rsp]) # post) ?s = Some (Some rsp, s')"
    "tx (q_sock s') = tx (q_sock s) @ wire (message_of ?h [])" "smooth i k (q_sock s')" "\<not> q_pending_active s'"
    "q_work_queue s' = q_work_queue s @ works (concat pre @ ops)" "q_next_txn_id s' = q_next_txn_id s + 1" "q_connected s'"
    by (auto simp: good_response_def)
  with v assms(8) read_header_agrees [OF assms(1,2), of s "q_next_txn_id s" ?s addr] show ?thesis
    by (simp add: pcie_vip_mmio_read_def pcie_vip_next_txn_def)
qed

lemma mmio_write_delivers:
  assumes "0 < n" "n \<le> 8" "q_connected s" "\<not> q_pending_active s" "smooth i (64 + n + k) (q_sock s)"
    and "list_all (noise (q_next_txn_id s)) (concat pre @ ops)" "good_response (q_next_txn_id s) 6 rsp"
  shows "\<exists>s'. pcie_vip_mmio_write addr v n (pre @ (ops @ [Deliver rsp]) # post) s = Some s' \<and>
    tx (q_sock s') = tx (q_sock s) @ wire (bar_write_req s addr v n) \<and> q_next_txn_id s' = q_next_txn_id s + 1 \<and>
    q_work_queue s' = q_work_queue s @ works (concat pre @ ops) \<and> \<not> q_pending_active s' \<and> q_connected s' \<and> smooth i k (q_sock s')"
proof -
  let ?s = "s\<lparr>q_next_txn_id := q_next_txn_id s + 1\<rparr>"
  let ?h = "pcie_vip_header ?s 5 (q_next_txn_id s) addr (byte_enables addr n) (of_nat n) (of_nat n) 0 0"
  let ?pl = "map (\<lambda>i. ucast (drop_bit (i * 8) v)) [0..<n] :: bytes"
  have "m_txn_id ?h = q_next_txn_id s" "m_payload_len ?h = of_nat n" by (simp_all add: pcie_vip_header_def)
  with rpc_delivers [of ?s i ?pl k ?h pre ops rsp 6 post] assms small_nat_u32 [OF assms(1,2)] obtain s' where
    "pcie_vip_rpc ?h ?pl 6 (pre @ (ops @ [Deliver rsp]) # post) ?s = Some (Some rsp, s')"
    "tx (q_sock s') = tx (q_sock s) @ wire (message_of ?h ?pl)" "smooth i k (q_sock s')" "\<not> q_pending_active s'"
    "q_work_queue s' = q_work_queue s @ works (concat pre @ ops)" "q_next_txn_id s' = q_next_txn_id s + 1" "q_connected s'"
    by (auto simp: good_response_def)
  with write_header_agrees [OF assms(1,2), of s "q_next_txn_id s" ?s addr v] show ?thesis
    by (simp add: pcie_vip_mmio_write_def pcie_vip_next_txn_def)
qed

lemma mmio_read_cases:
  assumes "pcie_vip_mmio_read addr n batches s = Some (v, s')" "0 < n" "n \<le> 8"
    and "\<forall>m \<in> delivered (concat batches). length (mpayload m) = unat (m_payload_len (mh m))"
  shows "v = - 1 \<or> (\<exists>rsp \<in> delivered (concat batches). good_response (q_next_txn_id s) 4 rsp \<and> length (mpayload rsp) = n \<and>
    v = le_value (mpayload rsp))"
proof -
  let ?s = "s\<lparr>q_next_txn_id := q_next_txn_id s + 1\<rparr>"
  let ?h = "pcie_vip_header ?s 3 (q_next_txn_id s) addr (byte_enables addr n) 0 (of_nat n) 0 0"
  from assms(1) obtain r where r: "pcie_vip_rpc ?h [] 4 batches ?s = Some (r, s')"
    and v: "v = (case r of None \<Rightarrow> - 1 | Some rsp \<Rightarrow> if m_payload_len (mh rsp) = of_nat n
      then fold (\<lambda>i v. v OR push_bit (i * 8) (ucast (mpayload rsp ! i))) [0..<n] 0 else - 1)"
    by (auto simp: pcie_vip_mmio_read_def pcie_vip_next_txn_def)
  show ?thesis
  proof (cases "v = - 1")
    case False
    with v obtain rsp where rsp: "r = Some rsp" "m_payload_len (mh rsp) = of_nat n"
      "v = fold (\<lambda>i v. v OR push_bit (i * 8) (ucast (mpayload rsp ! i))) [0..<n] 0"
      by (auto split: option.splits if_splits)
    note res = rpc_result [OF r [unfolded rsp(1)]]
    have "length (mpayload rsp) = n" using assms(4) res rsp(2) small_nat_u32 [OF assms(2,3)] by auto
    with res rsp(3) fold_or_le_value [of "mpayload rsp" "0 :: u64"] show ?thesis
      by (intro disjI2 bexI [of _ rsp]) (auto simp: good_response_def pcie_vip_header_def mult.commute)
  qed simp
qed

section \<open>The bottom half\<close>

text \<open>
  The service of one request as a function of guest memory: whether the access is granted, the response as the C++
  side would build it, and the effect on the sent bytes, the memory and the notified vectors.
\<close>

definition dma_granted :: "(u64 \<Rightarrow> nat \<Rightarrow> bool) \<Rightarrow> u32 \<Rightarrow> MicsMessage \<Rightarrow> bool" where
  "dma_granted ok mx w \<longleftrightarrow> m_transfer_len (mh w) \<noteq> 0 \<and> m_transfer_len (mh w) \<le> mx \<and>
     ok (m_address (mh w)) (unat (m_transfer_len (mh w))) \<and>
     (m_type (mh w) = 9 \<longrightarrow> m_transfer_len (mh w) = m_payload_len (mh w))"

definition dma_response :: "(u64 \<Rightarrow> nat \<Rightarrow> bool) \<Rightarrow> u32 \<Rightarrow> u64 \<Rightarrow> memory \<Rightarrow> MicsMessage \<Rightarrow> Message" where
  "dma_response ok mx ts mem w =
     (let pl = (if m_type (mh w) = 7 \<and> dma_granted ok mx w then mem_load mem (m_address (mh w)) (unat (m_transfer_len (mh w))) else [])
      in \<lparr> header = MakeHeader (if m_type (mh w) = 7 then kDmaReadRsp else kDmaWriteRsp) (m_txn_id (mh w)) (m_address (mh w)) 0
             (if dma_granted ok mx w then kSuccess else kErrorOutOfBounds) ts (of_nat (length pl)) kFlagIsResponse (m_transfer_len (mh w)),
           payload = pl \<rparr>)"

definition serve_abs ::
  "(u64 \<Rightarrow> nat \<Rightarrow> bool) \<Rightarrow> u32 \<Rightarrow> u64 \<Rightarrow> MicsMessage \<Rightarrow> bytes \<times> memory \<times> u64 list \<Rightarrow> bytes \<times> memory \<times> u64 list" where
  "serve_abs ok mx ts w x =
     (let (out, mem, irqs) = x
      in if m_type (mh w) = 11 then (out, mem, if m_address (mh w) < 4 then irqs @ [m_address (mh w)] else irqs)
         else if m_type (mh w) = 7 \<or> m_type (mh w) = 9
         then (out @ wire (dma_response ok mx ts mem w),
               if m_type (mh w) = 9 \<and> dma_granted ok mx w then mem_store mem (m_address (mh w)) (mpayload w) else mem, irqs)
         else x)"

definition abs_dma :: "PcieVipState \<Rightarrow> bytes \<times> memory \<times> u64 list" where
  "abs_dma s = (tx (q_sock s), q_mem s, q_msix s)"

definition reply_cost :: "u32 \<Rightarrow> MicsMessage \<Rightarrow> nat" where
  "reply_cost mx w = 64 + (if m_type (mh w) = 7 \<and> m_transfer_len (mh w) \<le> mx then unat (m_transfer_len (mh w)) else 0)"

lemma dma_response_valid:
  assumes "mx \<le> MICS_MAX_PAYLOAD"
  shows "valid_message (dma_response ok mx ts mem w) \<and> is_dma_rsp (dma_response ok mx ts mem w) \<and>
    txn_id (header (dma_response ok mx ts mem w)) = m_txn_id (mh w)"
  using assms
  by (auto simp: dma_response_def Let_def valid_message_def is_dma_rsp_def dma_granted_def image_iff MICS_MAX_PAYLOAD_def kMaxPayloadSize_def)

lemma send_status_smooth:
  assumes "q_connected s" "smooth i (64 + length pl + k) (q_sock s)" "unat (of_nat (length pl) :: u32) = length pl"
  shows "\<exists>j. pcie_vip_send_status req ty st pl s = Some (s\<lparr>q_sock := j\<rparr>) \<and> smooth i k j \<and>
    tx j = tx (q_sock s) @ wire (message_of (pcie_vip_header s ty (m_txn_id (mh req)) (m_address (mh req)) 0 (of_nat (length pl))
      (m_transfer_len (mh req)) MICS_FLAG_RESPONSE st) pl)"
proof -
  let ?h = "pcie_vip_header s ty (m_txn_id (mh req)) (m_address (mh req)) 0 (of_nat (length pl)) (m_transfer_len (mh req)) MICS_FLAG_RESPONSE st"
  have "length pl = unat (m_payload_len ?h)" using assms(3) by (simp add: pcie_vip_header_def)
  from smooth_mics_send [OF assms(1,2) this] show ?thesis by (auto simp: pcie_vip_send_status_def)
qed

lemma dma_response_message:
  assumes "m_type (mh w) = 7 \<or> m_type (mh w) = 9" "q_clock s = ts"
    and "pl = (if m_type (mh w) = 7 \<and> dma_granted ok mx w then mem_load mem (m_address (mh w)) (unat (m_transfer_len (mh w))) else [])"
  shows "message_of (pcie_vip_header s (m_type (mh w) + 1) (m_txn_id (mh w)) (m_address (mh w)) 0 (of_nat (length pl)) (m_transfer_len (mh w))
      MICS_FLAG_RESPONSE (if dma_granted ok mx w then 0 else 6)) pl = dma_response ok mx ts mem w"
  using assms
  by (auto simp: message_of_def header_of_def pcie_vip_header_def dma_response_def Let_def MakeHeader_def kHeaderSize_def kFlagIsResponse_def
      MICS_FLAG_RESPONSE_def dma_granted_def)

lemma serve_work_eq:
  "serve_work w s =
     (let ty = m_type (mh w); granted = dma_granted (q_dma_ok s) (q_max_transfer s) w
      in if ty = 7 \<or> ty = 9 then
           pcie_vip_send_status w (ty + 1) (if granted then 0 else 6)
             (if ty = 7 \<and> granted then mem_load (q_mem s) (m_address (mh w)) (unat (m_transfer_len (mh w))) else [])
             (if ty = 9 \<and> granted then s\<lparr> q_mem := mem_store (q_mem s) (m_address (mh w)) (take (unat (m_payload_len (mh w))) (mpayload w)) \<rparr>
              else s)
         else Some (if ty = 11 \<and> m_address (mh w) < 4 then s\<lparr> q_msix := q_msix s @ [m_address (mh w)] \<rparr> else s))"
  by (auto simp: serve_work_def Let_def dma_granted_def)

lemma serve_work_abs:
  assumes "q_connected s" "smooth i (reply_cost (q_max_transfer s) w + k) (q_sock s)" "length (mpayload w) = unat (m_payload_len (mh w))"
  shows "\<exists>s'. serve_work w s = Some s' \<and> abs_dma s' = serve_abs (q_dma_ok s) (q_max_transfer s) (q_clock s) w (abs_dma s) \<and>
    smooth i k (q_sock s') \<and> q_connected s' \<and> q_dma_ok s' = q_dma_ok s \<and> q_max_transfer s' = q_max_transfer s \<and>
    q_clock s' = q_clock s \<and> q_work_queue s' = q_work_queue s"
proof (cases "m_type (mh w) = 7 \<or> m_type (mh w) = 9")
  case True
  let ?g = "dma_granted (q_dma_ok s) (q_max_transfer s) w"
  define pl where "pl = (if m_type (mh w) = 7 \<and> ?g then mem_load (q_mem s) (m_address (mh w)) (unat (m_transfer_len (mh w))) else [])"
  define s0 where "s0 = (if m_type (mh w) = 9 \<and> ?g
     then s\<lparr> q_mem := mem_store (q_mem s) (m_address (mh w)) (take (unat (m_payload_len (mh w))) (mpayload w)) \<rparr> else s)"
  have s0: "q_sock s0 = q_sock s" "q_connected s0" "q_clock s0 = q_clock s" "q_dma_ok s0 = q_dma_ok s" "q_max_transfer s0 = q_max_transfer s"
    "q_work_queue s0 = q_work_queue s" "q_msix s0 = q_msix s" using assms(1) by (simp_all add: s0_def)
  have "64 + length pl + k \<le> reply_cost (q_max_transfer s) w + k" by (simp add: pl_def reply_cost_def dma_granted_def)
  then have sm: "smooth i (64 + length pl + k) (q_sock s0)" using assms(2) s0(1) by (auto intro: smooth_mono)
  have "unat (of_nat (length pl) :: u32) = length pl" by (simp add: pl_def)
  from send_status_smooth [OF s0(2) sm this, of w "m_type (mh w) + 1" "if ?g then 0 else 6"]
    dma_response_message [OF True s0(3) pl_def] s0(1) obtain j where
    j: "pcie_vip_send_status w (m_type (mh w) + 1) (if ?g then 0 else 6) pl s0 = Some (s0\<lparr>q_sock := j\<rparr>)" "smooth i k j"
       "tx j = tx (q_sock s) @ wire (dma_response (q_dma_ok s) (q_max_transfer s) (q_clock s) (q_mem s) w)"
    by auto
  have "serve_work w s = Some (s0\<lparr>q_sock := j\<rparr>)"
    unfolding serve_work_eq Let_def pl_def [symmetric] s0_def [symmetric] using True j(1) by simp
  with j s0 True assms(3) show ?thesis by (auto simp: serve_abs_def abs_dma_def s0_def)
next
  case False
  with assms show ?thesis by (auto simp: serve_work_eq Let_def serve_abs_def abs_dma_def elim: smooth_mono)
qed

lemma serve_all_abs:
  assumes "q_connected s" "smooth i (sum_list (map (reply_cost (q_max_transfer s)) ws) + k) (q_sock s)"
    and "\<forall>w \<in> set ws. length (mpayload w) = unat (m_payload_len (mh w))"
  shows "\<exists>s'. serve_all ws s = Some s' \<and> abs_dma s' = fold (serve_abs (q_dma_ok s) (q_max_transfer s) (q_clock s)) ws (abs_dma s) \<and>
    smooth i k (q_sock s') \<and> q_connected s' \<and> q_work_queue s' = q_work_queue s"
  using assms
proof (induction ws arbitrary: s)
  case (Cons w ws)
  let ?mx = "q_max_transfer s"
  from serve_work_abs [of s i w "sum_list (map (reply_cost ?mx) ws) + k"] Cons.prems obtain s1 where
    s1: "serve_work w s = Some s1" "abs_dma s1 = serve_abs (q_dma_ok s) ?mx (q_clock s) w (abs_dma s)"
      "smooth i (sum_list (map (reply_cost ?mx) ws) + k) (q_sock s1)" "q_connected s1" "q_dma_ok s1 = q_dma_ok s"
      "q_max_transfer s1 = ?mx" "q_clock s1 = q_clock s" "q_work_queue s1 = q_work_queue s"
    by (auto simp: add.assoc)
  from Cons.IH [of s1] s1 Cons.prems(3) show ?case by auto
qed simp

lemma process_work_abs:
  assumes "q_connected s" "\<forall>w \<in> set (q_work_queue s). length (mpayload w) = unat (m_payload_len (mh w))"
    and "smooth i (sum_list (map (reply_cost (q_max_transfer s)) (q_work_queue s)) + k) (q_sock s)"
  shows "\<exists>s'. pcie_vip_process_work s = Some s' \<and> q_work_queue s' = [] \<and> smooth i k (q_sock s') \<and>
    abs_dma s' = fold (serve_abs (q_dma_ok s) (q_max_transfer s) (q_clock s)) (q_work_queue s) (abs_dma s)"
proof -
  have "abs_dma (s\<lparr>q_work_queue := []\<rparr>) = abs_dma s" by (simp add: abs_dma_def)
  with serve_all_abs [of "s\<lparr>q_work_queue := []\<rparr>" i "q_work_queue s" k] assms show ?thesis
    by (auto simp: pcie_vip_process_work_def)
qed

section \<open>Realisation and removal\<close>

lemma connect_loop_result:
  assumes "connect_loop attempts s w = (ok, s', w')" "\<forall>(k, r) \<in> set attempts. fd k \<notin> open_fds w"
  shows "(ok \<longrightarrow> q_connected s' \<and> 0 \<le> fd (q_sock s') \<and> fd (q_sock s') \<notin> open_fds w \<and>
      open_fds w' = insert (fd (q_sock s')) (open_fds w)) \<and>
    (\<not> ok \<longrightarrow> q_connected s' = q_connected s \<and> open_fds w' = open_fds w)"
  using assms
proof (induction attempts s w rule: connect_loop.induct)
  case (2 k r rest s w)
  show ?case
  proof (cases "fd k < 0 \<or> r")
    case True
    with "2.prems" show ?thesis by (auto split: if_splits)
  next
    case False
    let ?w = "sys_close (fd k) (w\<lparr>open_fds := insert (fd k) (open_fds w)\<rparr>)"
    have same: "open_fds ?w = open_fds w" using "2.prems"(2) by (auto simp: sys_close_def)
    then have "\<forall>(k, r) \<in> set rest. fd k \<notin> open_fds ?w" using "2.prems"(2) by auto
    with "2.IH" False "2.prems"(1) same show ?thesis by auto
  qed
qed auto

lemma mics_send_fd: "mics_send h pl s = Some (ok, s') \<Longrightarrow> fd (q_sock s') = fd (q_sock s) \<and> q_connected s' = q_connected s"
  by (auto simp: mics_send_def split: if_splits option.splits dest!: send_all_result)

lemma recv_all_fd: "recv_all len s = Some (r, s') \<Longrightarrow> fd s' = fd s"
proof (induction len s arbitrary: r rule: recv_all.induct)
  case (1 len s)
  show ?case
  proof (cases "len = 0")
    case True
    with "1.prems" show ?thesis by (auto simp: recv_all.simps)
  next
    case False
    with "1.prems" obtain g s1 where st: "recv_step len s = Some (g, s1)" by (auto simp: recv_all.simps [of len s] split: option.splits)
    show ?thesis
    proof (cases g)
      case None
      with "1.prems" False st recv_step_effect [OF st] show ?thesis by (auto simp: recv_all.simps [of len s])
    next
      case (Some got)
      with "1.prems" False st obtain r' where "recv_all (len - length got) s1 = Some (r', s')" by (auto simp: recv_all.simps [of len s])
      from "1.IH" [OF False st [unfolded Some] refl refl this] recv_step_effect [OF st] show ?thesis by simp
    qed
  qed
qed

lemma mics_recv_fd: "mics_recv s = Some (r, s') \<Longrightarrow> fd (q_sock s') = fd (q_sock s) \<and> q_connected s' = q_connected s"
  by (auto simp: mics_recv_def split: if_splits option.splits dest!: recv_all_fd)

lemma handshake_fd:
  assumes "pcie_vip_handshake s = Some (ok, s')"
  shows "fd (q_sock s') = fd (q_sock s) \<and> q_connected s' = q_connected s"
  using assms
  by (auto simp: pcie_vip_handshake_def pcie_vip_next_txn_def split: option.splits bool.splits dest!: mics_send_fd mics_recv_fd)

lemma pcie_vip_connect_result:
  assumes "pcie_vip_connect attempts s w = (ok, s', w')" "\<forall>(k, r) \<in> set attempts. fd k \<notin> open_fds w"
  shows "(ok \<longrightarrow> q_connected s' \<and> 0 \<le> fd (q_sock s') \<and> fd (q_sock s') \<notin> open_fds w \<and>
      open_fds w' = insert (fd (q_sock s')) (open_fds w)) \<and>
    (\<not> ok \<longrightarrow> q_connected s' = q_connected s \<and> open_fds w' = open_fds w)"
  using assms connect_loop_result [of attempts s w ok s' w'] by (auto simp: pcie_vip_connect_def split: if_splits)

section \<open>A sample device\<close>

definition sample_qemu :: "nat \<Rightarrow> bytes \<Rightarrow> PcieVipState" where
  "sample_qemu n inb = \<lparr> q_sock = ideal_socket n 9 inb, q_socket_path = ''/tmp/pcie-vip.sock'', q_max_transfer = 0x100000, q_stopping = False,
     q_connected = True, q_next_txn_id = 1, q_pending_active = False, q_pending_done = False, q_pending_txn_id = 0,
     q_pending_response = zero_message, q_work_queue = [], q_clock = 0, q_mem = (\<lambda>_. 0), q_dma_ok = (\<lambda>a n. a < 0x10000), q_msix = [] \<rparr>"

definition sample_mics :: "u16 \<Rightarrow> u16 \<Rightarrow> u64 \<Rightarrow> u64 \<Rightarrow> u32 \<Rightarrow> bytes \<Rightarrow> MicsMessage" where
  "sample_mics ty fl t ad xl pl = \<lparr> mh = \<lparr> m_type = ty, m_flags = fl, m_payload_len = of_nat (length pl), m_txn_id = t, m_sim_timestamp = 0,
     m_address = ad, m_byte_enable = 0, m_status = 0, m_transfer_len = xl \<rparr>, mpayload = pl \<rparr>"

lemma ideal_socket_smooth: "a \<le> n \<Longrightarrow> b \<le> n \<Longrightarrow> smooth a b (ideal_socket n d inb)"
  by (auto simp: smooth_def ideal_socket_def POLLIN_def POLLERR_def POLLNVAL_def POLLHUP_def)

lemma sample_qemu_simps [simp]:
  "q_sock (sample_qemu n inb) = ideal_socket n 9 inb" "q_connected (sample_qemu n inb)" "\<not> q_pending_active (sample_qemu n inb)"
  "q_next_txn_id (sample_qemu n inb) = 1" "q_max_transfer (sample_qemu n inb) = 0x100000" "q_clock (sample_qemu n inb) = 0"
  "q_mem (sample_qemu n inb) = (\<lambda>_. 0)" "q_dma_ok (sample_qemu n inb) = (\<lambda>a n. a < 0x10000)" "q_msix (sample_qemu n inb) = []"
  by (simp_all add: sample_qemu_def)

section \<open>Properties of the QEMU device\<close>

text \<open>
  C13: the two implementations of the wire format agree. The header that the C code of the QEMU device encodes
  is byte for byte the one the C++ library serialises, and on 64 bytes the C decoder accepts exactly the
  headers that the C++ parser accepts, with the same fields.
\<close>

theorem codecs_agree:
  assumes "length p = kHeaderSize"
  shows "mics_encode_header h = SerializeHeader (header_of h) \<and>
    mics_decode_header p = (case DeserializeHeader p of Inl _ \<Rightarrow> None | Inr g \<Rightarrow> Some (mics_of g))"
  using assms mics_decode_agrees mics_encode_layout by (simp add: kHeaderSize_def)

theorem codecs_agree_witness:
  "mics_decode_header (SerializeHeader (header_of (mh (sample_mics 7 0 3 0x1000 64 [])))) = Some (mh (sample_mics 7 0 3 0x1000 64 []))"
proof -
  let ?h = "mh (sample_mics 7 0 3 0x1000 64 [])"
  have "valid_header (header_of ?h)" by (simp add: valid_header_def header_of_def sample_mics_def kMaxPayloadSize_def)
  then show ?thesis
    using codecs_agree [of "SerializeHeader (header_of ?h)" ?h] DeserializeHeader_append [of "header_of ?h" "[]"]
    by (simp add: kHeaderSize_def)
qed

text \<open>
  C14: messages cross between the two implementations unchanged, in both directions. A valid message the C++ side
  puts on the wire is received by the QEMU device with the same fields and payload, and what \<open>mics_send\<close>
  reports as sent is received by the C++ side as that message; each receiver leaves the rest of the stream alone.
\<close>

theorem messages_cross_intact:
  assumes "valid_message m" "rx (q_sock s) = wire m @ rest" "smooth (64 + length (payload m) + n) j (q_sock s)"
    and "mics_send h pl s1 = Some (True, s2)" "length pl = unat (m_payload_len h)" "m_payload_len h \<le> MICS_MAX_PAYLOAD"
    and "rx c = drop (length (tx (q_sock s1))) (tx (q_sock s2)) @ rest'" "cooperative (64 + length pl + n') k c"
  shows "(\<exists>i. mics_recv s = Some (Some (mics_msg_of m), s\<lparr>q_sock := i\<rparr>) \<and> rx i = rest \<and> tx i = tx (q_sock s)) \<and>
    (\<exists>c'. recv_message c = Some (Received (message_of h pl), c') \<and> rx c' = rest' \<and> tx c' = tx c)"
proof -
  from mics_send_ok [OF assms(4,5)] have "rx c = wire (message_of h pl) @ rest'" using assms(7) by auto
  moreover have "valid_message (message_of h pl)" "length (payload (message_of h pl)) = length pl"
    using assms(5,6) by (simp_all add: message_of_def valid_message_def valid_header_def header_of_def MICS_MAX_PAYLOAD_def kMaxPayloadSize_def)
  ultimately have "\<exists>c'. recv_message c = Some (Received (message_of h pl), c') \<and> rx c' = rest' \<and> tx c' = tx c"
    using recv_message_cooperative [of "message_of h pl" c rest' n' k] assms(8) by auto
  with mics_recv_complete [OF assms(1-3)] show ?thesis by blast
qed

theorem messages_cross_intact_witness:
  "\<exists>s2. mics_send (mh (sample_mics 5 0 1 0x14 2 [1, 2])) [1, 2] (sample_qemu 100 []) = Some (True, s2) \<and>
     (\<exists>c'. recv_message (ideal_socket 100 5 (tx (q_sock s2))) =
        Some (Received (message_of (mh (sample_mics 5 0 1 0x14 2 [1, 2])) [1, 2]), c')) \<and>
     (\<exists>i. mics_recv (sample_qemu 100 (wire (sample_msg kMsiX 4 [3]))) =
        Some (Some (mics_msg_of (sample_msg kMsiX 4 [3])), (sample_qemu 100 (wire (sample_msg kMsiX 4 [3])))\<lparr>q_sock := i\<rparr>))"
proof -
  let ?h = "mh (sample_mics 5 0 1 0x14 2 [1, 2])" and ?m = "sample_msg kMsiX 4 [3]"
  have len: "length [1, 2 :: u8] = unat (m_payload_len ?h)" "m_payload_len ?h \<le> MICS_MAX_PAYLOAD"
    by (simp_all add: sample_mics_def MICS_MAX_PAYLOAD_def)
  from smooth_mics_send [OF _ _ len(1), of "sample_qemu 100 []" 0 0] obtain k where
    k: "mics_send ?h [1, 2] (sample_qemu 100 []) = Some (True, (sample_qemu 100 [])\<lparr>q_sock := k\<rparr>)"
    by (auto simp: ideal_socket_smooth)
  from messages_cross_intact [OF sample_msg_valid [of "[3]" kMsiX 4] _ _ k len,
      of "sample_qemu 100 (wire ?m)" "[]" 0 0 "ideal_socket 100 5 (tx k)" "[]" 0 0] k
  show ?thesis by (auto simp: ideal_socket_smooth ideal_socket_cooperative)
qed

text \<open>
  C16: a BAR read of the guest never returns made-up data. Whatever the reader thread does meanwhile, the value is
  all ones (not connected, busy, failed send, time-out, wrong type, error status, wrong length), or it is the
  little-endian value of the payload of a response that the reader received, that carries the id this request
  was sent under, has the type of a read response, reports success and has exactly the size that was read.
\<close>

theorem mmio_read_sound:
  assumes "pcie_vip_mmio_read addr n batches s = Some (v, s')" "0 < n" "n \<le> 8"
    and "\<forall>m \<in> delivered (concat batches). length (mpayload m) = unat (m_payload_len (mh m))"
  shows "v = - 1 \<or> (\<exists>rsp. Deliver rsp \<in> set (concat batches) \<and> m_txn_id (mh rsp) = q_next_txn_id s \<and>
    m_flags (mh rsp) AND MICS_FLAG_RESPONSE \<noteq> 0 \<and> m_type (mh rsp) = 4 \<and> m_status (mh rsp) = 0 \<and>
    length (mpayload rsp) = n \<and> v = le_value (mpayload rsp))"
  using mmio_read_cases [OF assms] by (auto simp: delivered_def good_response_def)

theorem mmio_read_sound_witness:
  "\<exists>v s'. pcie_vip_mmio_read 0x14 4 [[Deliver (sample_mics 11 0 7 2 0 [])], [Deliver (sample_mics 4 1 1 0x14 4 [1, 2, 0, 0])]]
      (sample_qemu 64 []) = Some (v, s') \<and> v = 0x201 \<and>
    (v = - 1 \<or> (\<exists>rsp. Deliver rsp \<in> {Deliver (sample_mics 11 0 7 2 0 []), Deliver (sample_mics 4 1 1 0x14 4 [1, 2, 0, 0])} \<and>
       m_type (mh rsp) = 4 \<and> v = le_value (mpayload rsp)))"
proof -
  let ?x = "sample_mics 11 0 7 2 0 []" and ?rsp = "sample_mics 4 1 1 0x14 4 [1, 2, 0, 0]" and ?s = "sample_qemu 64 []"
  from mmio_read_delivers [of 4 ?s 0 0 "[[Deliver ?x]]" "[]" ?rsp "0x14" "[]"] obtain s' where
    s': "pcie_vip_mmio_read 0x14 4 [[Deliver ?x], [Deliver ?rsp]] ?s = Some (0x201, s')"
    by (auto simp: ideal_socket_smooth good_response_def sample_mics_def MICS_FLAG_RESPONSE_def)
  from mmio_read_sound [OF s'] show ?thesis
    by (intro exI [of _ "0x201"] exI [of _ s'] conjI s') (auto simp: delivered_def sample_mics_def)
qed

text \<open>
  C15: the bottom half serves everything the endpoint asked for, in order. It empties the queue, and the bytes it
  sends, the guest memory and the notified vectors are those of serving the requests one after the other: a read
  in bounds is answered with the bytes of guest memory and a write stores its payload, each acknowledged under the
  id of its request; a transfer of length zero, above the limit, refused by the bus or with a payload of another
  length is answered with an out-of-bounds error and changes nothing; an interrupt message notifies its vector if
  there is one. Every answer is a valid message that the server routes to the waiting request.
\<close>

theorem work_served:
  assumes "q_connected s" "q_max_transfer s \<le> MICS_MAX_PAYLOAD"
    and "\<forall>w \<in> set (q_work_queue s). length (mpayload w) = unat (m_payload_len (mh w))"
    and "smooth i (sum_list (map (reply_cost (q_max_transfer s)) (q_work_queue s)) + k) (q_sock s)"
  shows "(\<exists>s'. pcie_vip_process_work s = Some s' \<and> q_work_queue s' = [] \<and> smooth i k (q_sock s') \<and>
      abs_dma s' = fold (serve_abs (q_dma_ok s) (q_max_transfer s) (q_clock s)) (q_work_queue s) (abs_dma s)) \<and>
    (\<forall>mem w. valid_message (dma_response (q_dma_ok s) (q_max_transfer s) (q_clock s) mem w) \<and>
      is_dma_rsp (dma_response (q_dma_ok s) (q_max_transfer s) (q_clock s) mem w) \<and>
      txn_id (header (dma_response (q_dma_ok s) (q_max_transfer s) (q_clock s) mem w)) = m_txn_id (mh w))"
  using process_work_abs [OF assms(1,3,4)] dma_response_valid [OF assms(2)] by blast

theorem work_served_witness:
  "\<exists>s'. pcie_vip_process_work ((sample_qemu 200 [])\<lparr> q_work_queue :=
      [sample_mics 9 0 5 0x2000 2 [7, 8], sample_mics 7 0 6 0x20000 4 [], sample_mics 11 0 7 2 0 []] \<rparr>) = Some s' \<and>
    q_work_queue s' = [] \<and> q_msix s' = [2] \<and> q_mem s' 0x2001 = 8"
proof -
  let ?s = "(sample_qemu 200 [])\<lparr> q_work_queue :=
      [sample_mics 9 0 5 0x2000 2 [7, 8], sample_mics 7 0 6 0x20000 4 [], sample_mics 11 0 7 2 0 []] \<rparr>"
  have "smooth 0 (sum_list (map (reply_cost (q_max_transfer ?s)) (q_work_queue ?s)) + 0) (q_sock ?s)"
    by (simp add: reply_cost_def sample_mics_def ideal_socket_smooth)
  from work_served [OF _ _ _ this] obtain s' where s': "pcie_vip_process_work ?s = Some s'" "q_work_queue s' = []"
    "abs_dma s' = fold (serve_abs (q_dma_ok ?s) (q_max_transfer ?s) (q_clock ?s)) (q_work_queue ?s) (abs_dma ?s)"
    by (auto simp: sample_mics_def MICS_MAX_PAYLOAD_def)
  from s'(3) have "q_msix s' = [2]" "q_mem s' 0x2001 = 8"
    by (simp_all add: abs_dma_def serve_abs_def dma_granted_def sample_mics_def mem_store_def)
  with s' show ?thesis by blast
qed

text \<open>The state in which \<open>pcie_vip_realize\<close> starts to connect.\<close>

definition realize_start :: "qdev \<Rightarrow> PcieVipState" where
  "realize_start d = (qs d)\<lparr> q_sock := (q_sock (qs d))\<lparr> fd := -1 \<rparr>, q_next_txn_id := 1, q_work_queue := [] \<rparr>"

lemma realize_success:
  assumes "pcie_vip_realize cap_ok msix_ok attempts blocker_ok d w = Some (True, d', w')" "\<forall>(k, r) \<in> set attempts. fd k \<notin> open_fds w"
  shows "cap_ok \<and> msix_ok \<and> blocker_ok \<and> qd_bh d' \<and> qd_msix d' \<and> qd_blocker d' \<and> qd_reader d' \<and> q_connected (qs d') \<and>
    0 \<le> fd (q_sock (qs d')) \<and> fd (q_sock (qs d')) \<notin> open_fds w \<and> open_fds w' = insert (fd (q_sock (qs d'))) (open_fds w)"
proof -
  obtain ok s1 w1 where c: "pcie_vip_connect attempts (realize_start d) w = (ok, s1, w1)" by (cases "pcie_vip_connect attempts (realize_start d) w") auto
  have guards: "cap_ok" "msix_ok" "ok" using assms(1) c by (auto simp: pcie_vip_realize_def realize_start_def err_bh_def err_msix_def Let_def split: if_splits)
  with assms(1) c obtain s2 where h: "pcie_vip_handshake s1 = Some (True, s2)"
    and "blocker_ok" "w' = w1" "qs d' = s2" "qd_bh d'" "qd_msix d'" "qd_blocker d'" "qd_reader d'"
    by (auto simp: pcie_vip_realize_def realize_start_def err_bh_def err_msix_def err_socket_def Let_def split: if_splits option.splits)
  with guards pcie_vip_connect_result [OF c assms(2)] handshake_fd [OF h] show ?thesis by simp
qed

text \<open>
  C37: realisation and removal of the device balance. When \<open>pcie_vip_realize\<close> succeeds, exactly one new descriptor
  is open and the bottom half, the interrupt vectors, the migration blocker and the reader thread exist; whatever
  the device did afterwards on that descriptor, \<open>pcie_vip_exit\<close> ends with all of them released, nothing queued, no
  connection, and exactly the descriptors open that were open before.
\<close>

theorem realize_exit_balanced:
  assumes "pcie_vip_realize cap_ok msix_ok attempts blocker_ok d w = Some (True, d1, w1)"
    and "\<forall>(k, r) \<in> set attempts. fd k \<notin> open_fds w"
    and "fd (q_sock s) = fd (q_sock (qs d1))" "pcie_vip_exit (d1\<lparr>qs := s\<rparr>) w1 = (d2, w2)"
  shows "qd_bh d1 \<and> qd_msix d1 \<and> qd_blocker d1 \<and> qd_reader d1 \<and> q_connected (qs d1) \<and>
    open_fds w1 = insert (fd (q_sock (qs d1))) (open_fds w) \<and> fd (q_sock (qs d1)) \<notin> open_fds w \<and>
    \<not> qd_bh d2 \<and> \<not> qd_msix d2 \<and> \<not> qd_blocker d2 \<and> \<not> qd_reader d2 \<and> \<not> q_connected (qs d2) \<and>
    q_work_queue (qs d2) = [] \<and> fd (q_sock (qs d2)) = -1 \<and> open_fds w2 = open_fds w"
  using realize_success [OF assms(1,2)] assms(3,4) by (auto simp: pcie_vip_exit_def Let_def sys_close_def)

definition sample_qdev :: qdev where
  "sample_qdev = \<lparr> qs = (sample_qemu 0 [])\<lparr> q_connected := False \<rparr>, qd_bh = False, qd_msix = False, qd_blocker = False, qd_reader = False \<rparr>"

lemma hello_ack_received:
  assumes "q_connected s" "smooth (64 + n) (64 + k) (q_sock s)" "valid_message ack" "payload ack = []" "rx (q_sock s) = wire ack @ rest"
    and "msg_type (header ack) = 2" "txn_id (header ack) = q_next_txn_id s" "status (header ack) = 0"
  shows "\<exists>j. pcie_vip_handshake s = Some (True, s\<lparr>q_next_txn_id := q_next_txn_id s + 1, q_sock := j\<rparr>) \<and> rx j = rest \<and> smooth n k j \<and>
    tx j = tx (q_sock s) @ wire (message_of (pcie_vip_header s 1 (q_next_txn_id s) 0 0 0 0 0 0) [])"
proof -
  let ?s = "s\<lparr>q_next_txn_id := q_next_txn_id s + 1\<rparr>"
  let ?h = "pcie_vip_header ?s 1 (q_next_txn_id s) 0 0 0 0 0 0"
  have h: "?h = pcie_vip_header s 1 (q_next_txn_id s) 0 0 0 0 0 0" "m_payload_len ?h = 0" by (simp_all add: pcie_vip_header_def)
  with smooth_mics_send [of ?s "64 + n" "[]" k ?h] assms obtain j where
    j: "mics_send ?h [] ?s = Some (True, ?s\<lparr>q_sock := j\<rparr>)" "tx j = tx (q_sock s) @ wire (message_of ?h [])" "rx j = rx (q_sock s)"
       "smooth (64 + n) k j" by auto
  from mics_recv_complete [of ack "?s\<lparr>q_sock := j\<rparr>" rest n k] j assms obtain j' where
    "mics_recv (?s\<lparr>q_sock := j\<rparr>) = Some (Some (mics_msg_of ack), ?s\<lparr>q_sock := j'\<rparr>)" "rx j' = rest" "tx j' = tx j" "smooth n k j'"
    by auto
  with j h assms show ?thesis by (auto simp: pcie_vip_handshake_def pcie_vip_next_txn_def)
qed

theorem realize_exit_balanced_witness:
  "\<exists>d1 w1 d2 w2. pcie_vip_realize True True [(ideal_socket 64 9 [], False), (ideal_socket 64 9 (wire \<lparr> header = MakeHeader kHelloAck 1 0 0
       kSuccess 0 0 kFlagIsResponse 0, payload = [] \<rparr>), True)] True sample_qdev \<lparr> open_fds = {0, 1, 2}, socket_files = {} \<rparr> = Some (True, d1, w1) \<and>
     open_fds w1 = {0, 1, 2, 9} \<and> pcie_vip_exit d1 w1 = (d2, w2) \<and> open_fds w2 = {0, 1, 2}"
proof -
  let ?ack = "\<lparr> header = MakeHeader kHelloAck 1 0 0 kSuccess 0 0 kFlagIsResponse 0, payload = [] \<rparr>"
  let ?at = "[(ideal_socket 64 9 [], False), (ideal_socket 64 9 (wire ?ack), True)]" and ?w = "\<lparr> open_fds = {0, 1, 2}, socket_files = {} \<rparr> :: os"
  let ?s = "(realize_start sample_qdev)\<lparr> q_sock := ideal_socket 64 9 (wire ?ack), q_connected := True \<rparr>"
  let ?w1 = "\<lparr> open_fds = {9, 0, 1, 2}, socket_files = {} \<rparr> :: os"
  have c: "pcie_vip_connect ?at (realize_start sample_qdev) ?w = (True, ?s, ?w1)"
    by (simp add: pcie_vip_connect_def realize_start_def sample_qdev_def sample_qemu_def sun_path_size_def sys_close_def)
  have "rx (q_sock ?s) = wire ?ack @ []" "valid_message ?ack" "txn_id (header ?ack) = q_next_txn_id ?s"
    by (simp_all add: valid_message_def realize_start_def)
  from hello_ack_received [of ?s 0 0 ?ack "[]"] this obtain j where
    h: "pcie_vip_handshake ?s = Some (True, ?s\<lparr>q_next_txn_id := q_next_txn_id ?s + 1, q_sock := j\<rparr>)"
    by (auto simp: ideal_socket_smooth)
  obtain d1 where r: "pcie_vip_realize True True ?at True sample_qdev ?w = Some (True, d1, ?w1)"
    using c h by (simp add: pcie_vip_realize_def realize_start_def Let_def)
  obtain d2 w2 where e: "pcie_vip_exit (d1\<lparr>qs := qs d1\<rparr>) ?w1 = (d2, w2)" by fastforce
  from realize_exit_balanced [OF r _ refl e] have "open_fds w2 = {0, 1, 2}" by simp
  moreover have "pcie_vip_exit d1 ?w1 = (d2, w2)" using e by simp
  moreover have "open_fds ?w1 = {0, 1, 2, 9}" by auto
  ultimately show ?thesis using r by blast
qed

text \<open>
  C38: a failed handshake leaks the connection. When the backend is there but does not complete the handshake,
  realisation fails and gives back the vectors and the bottom half, but not the socket: its new descriptor stays
  open and the device still counts as connected (only the later failure path closes it).
\<close>

theorem failed_handshake_leaks_socket:
  assumes "pcie_vip_connect attempts (realize_start d) w = (True, s1, w1)" "pcie_vip_handshake s1 = Some (False, s2)"
    and "\<forall>(k, r) \<in> set attempts. fd k \<notin> open_fds w"
  shows "\<exists>d'. pcie_vip_realize True True attempts blocker_ok d w = Some (False, d', w1) \<and> \<not> qd_bh d' \<and> \<not> qd_msix d' \<and>
    q_connected (qs d') \<and> fd (q_sock (qs d')) \<in> open_fds w1 \<and> fd (q_sock (qs d')) \<notin> open_fds w"
  using pcie_vip_connect_result [OF assms(1,3)] handshake_fd [OF assms(2)] assms(1,2)
  by (simp add: pcie_vip_realize_def realize_start_def err_msix_def err_bh_def Let_def)

lemma recv_all_eof:
  assumes "smooth (Suc n) m s" "rx s = []" "0 < len"
  shows "\<exists>s'. recv_all len s = Some (None, s')"
proof -
  obtain p ps where p: "polls s = p # ps" using assms(1) by (cases "polls s") (auto simp: smooth_def)
  obtain x xs where x: "recvs s = x # xs" using assms(1) by (cases "recvs s") (auto simp: smooth_def)
  from assms(1) p x obtain re k where "p = PollReady re" "re AND (POLLERR OR POLLHUP OR POLLNVAL) = 0" "x = RecvGot k"
    by (auto simp: smooth_def)
  with p x assms(2,3) show ?thesis by (auto simp: recv_all.simps [of len s] recv_step_def Let_def)
qed

theorem failed_handshake_leaks_socket_witness:
  "\<exists>d' w1. pcie_vip_realize True True [(ideal_socket 64 9 [], True)] True sample_qdev \<lparr> open_fds = {0, 1, 2}, socket_files = {} \<rparr> =
     Some (False, d', w1) \<and> q_connected (qs d') \<and> fd (q_sock (qs d')) \<in> open_fds w1"
proof -
  let ?s = "(realize_start sample_qdev)\<lparr> q_sock := ideal_socket 64 9 [], q_connected := True \<rparr>"
  let ?w1 = "\<lparr> open_fds = {9, 0, 1, 2}, socket_files = {} \<rparr> :: os"
  have c: "pcie_vip_connect [(ideal_socket 64 9 [], True)] (realize_start sample_qdev) \<lparr> open_fds = {0, 1, 2}, socket_files = {} \<rparr> = (True, ?s, ?w1)"
    by (simp add: pcie_vip_connect_def realize_start_def sample_qdev_def sample_qemu_def sun_path_size_def)
  let ?s1 = "?s\<lparr>q_next_txn_id := q_next_txn_id ?s + 1\<rparr>" and ?h = "pcie_vip_header ?s 1 (q_next_txn_id ?s) 0 0 0 0 0 0"
  have h: "pcie_vip_header ?s1 1 (q_next_txn_id ?s) 0 0 0 0 0 0 = ?h" "m_payload_len ?h = 0" by (simp_all add: pcie_vip_header_def)
  with smooth_mics_send [of ?s1 1 "[]" 0 ?h] obtain j where
    j: "mics_send ?h [] ?s1 = Some (True, ?s1\<lparr>q_sock := j\<rparr>)" "rx j = []" "smooth 1 0 j" by (auto simp: ideal_socket_smooth)
  from recv_all_eof [of 0 0 j 64] j obtain j' where "recv_all 64 j = Some (None, j')" by auto
  then have "mics_recv (?s1\<lparr>q_sock := j\<rparr>) = Some (None, ?s1\<lparr>q_sock := j'\<rparr>)" by (simp add: mics_recv_def MICS_HEADER_SIZE_def)
  with j h have "pcie_vip_handshake ?s = Some (False, ?s1\<lparr>q_sock := j'\<rparr>)"
    by (simp add: pcie_vip_handshake_def pcie_vip_next_txn_def)
  from failed_handshake_leaks_socket [OF c this, of True] show ?thesis by auto
qed

text \<open>
  Data that arrive together with the end of the stream are lost: the QEMU side gives up on a hang-up although the
  last message is still in the socket.
\<close>

lemma hangup_drops_data:
  "polls (q_sock s) = PollReady (POLLIN OR POLLHUP) # ps \<Longrightarrow>
     mics_recv s = Some (None, s\<lparr>q_sock := (q_sock s)\<lparr>polls := ps\<rparr>\<rparr>)"
  by (simp add: mics_recv_def MICS_HEADER_SIZE_def recv_all.simps recv_step_def POLLIN_def POLLHUP_def POLLERR_def POLLNVAL_def)

end
