(* ===== verification/Spec2Isabelle.thy ===== *)
theory Spec2Isabelle
  imports Prelude Protocol Transaction Sockets Logger Server Endpoint Host_Client Dpi Harness
    Guest_Driver Guest_Tools Guest_System Testbench Qemu_Device
begin

text \<open>
  A verification library for the co-simulation bridge of this repository: the programs that connect an
  emulated PCIe host (QEMU with its guest driver and tools, or the stand-alone host client) with a simulated
  endpoint (a software model, an HDL simulator through DPI-C, or a Verilator model) over a Unix socket.

  \<^bold>\<open>The program and its parts.\<close> Both sides exchange framed messages (\<open>protocol.cpp\<close>). The server
  (\<open>server.cpp\<close>) owns the listening socket (\<open>socket.cpp\<close>); its I/O thread performs the HELLO handshake, parses
  messages and routes them: DMA responses to the table of pending requests, everything else to a blocking
  queue (\<open>transaction.hpp\<close>). The simulator side polls that queue, sends responses, and issues DMA requests
  that block for their response. It is one of the software endpoint of the demo (\<open>server.cpp\<close>), the DPI shim
  (\<open>mini_ics_dpi.cpp\<close>), and the Verilator harness (\<open>verilator_qemu_main.cpp\<close>). The host client
  (\<open>host_client.cpp\<close>) drives the demo and serves DMA against its memory. In the full system the host is QEMU:
  its device model (\<open>patches/qemu-pcie-vip.patch\<close>) turns BAR accesses of the guest into requests and serves the
  endpoint's DMA and interrupts; in the guest, the driver (\<open>pcie_vip.c\<close>) programs the descriptor ring, rings the
  doorbell, waits for the interrupt and checks data and completion records, on behalf of \<open>pcie-vip-run.c\<close>;
  \<open>pcie-vip-pcimem.c\<close> reads and writes single registers.

  \<^bold>\<open>Theories and the code they model.\<close>

  \<^item> \<open>Prelude\<close>: words and byte strings, little-endian values, buffers, decimal numerals; shared lemmas.

  \<^item> \<open>Protocol\<close> (\<open>protocol.hpp\<close>, \<open>protocol.cpp\<close>): message types, status codes, the header, serialisation and
    parsing with every error. Shown: parsing and printing are mutually inverse on valid headers, the parser's
    verdict in terms of bytes, the documented layout.

  \<^item> \<open>Transaction\<close> (\<open>transaction.hpp\<close>): id generator, queue, pending table. A wait on a condition variable is
    given the batches of operations other threads perform between two evaluations of its predicate; theorems
    quantify over all of them. Shown: FIFO order without loss, delivery, correlation, uniqueness of ids. The
    locales \<open>queue_part\<close> and \<open>table_part\<close> state what a state that contains such an object offers; they are
    interpreted for the bare objects and for the server.

  \<^item> \<open>Sockets\<close> (\<open>socket.cpp\<close>): the kernel is a script of outcomes of \<open>poll\<close>, \<open>send\<close>, \<open>recv\<close> and \<open>accept\<close>, consumed
    call by call; a call beyond the end of the script has not returned yet (\<open>None\<close>). The loops terminate
    because every iteration consumes the script. Shown: exactness of \<open>SendAll\<close> and \<open>RecvAll\<close> for every script,
    completion for cooperative ones, no leaked descriptor.

  \<^item> \<open>Logger\<close> (\<open>logger.cpp\<close>): filtering and formatting.

  \<^item> \<open>Server\<close> (class \<open>MiniIcsServer\<close>): the state as a record, one iteration of the I/O thread as one step,
    \<open>Start\<close>, \<open>Stop\<close>, and the simulator's calls. Shown: each iteration routes one whole message or none, a stream
    refines the abstract router \<open>route\<close>, the handshake, the invariant of all reachable states, correlation and
    completion of requests, the release of waiters by \<open>Stop\<close>, and the failure of a restart.

  \<^item> \<open>Endpoint\<close> (class \<open>SoftwareEndpointModel\<close> and the server program): registers, handlers, the DMA sequence,
    the polling loop. Shown: ready follows enable, exact verdicts of reads and writes, read-back, the complete
    doorbell sequence and its failure, termination of the loop.

  \<^item> \<open>Host_Client\<close> (\<open>host_client.cpp\<close>): guest memory (interface \<open>byte_memory\<close>), requests, demo steps, DMA service.

  \<^item> \<open>Dpi\<close> (\<open>mini_ics_dpi.cpp\<close>): the imported functions with their return codes and staging buffers.

  \<^item> \<open>Harness\<close> (\<open>verilator_qemu_main.cpp\<close>): the port protocol, completions, the descriptor ring and the main
    loop, over an arbitrary \<open>eval\<close> of the simulated hardware.

  \<^item> \<open>Testbench\<close> (\<open>verilator_main.cpp\<close>): the clock loop of the testbench program, over an arbitrary \<open>eval\<close>. Shown: it
    runs until the simulation finishes, two edges per iteration.

  \<^item> \<open>Guest_Driver\<close> (\<open>pcie_vip.c\<close>, \<open>pcie_vip_uapi.h\<close>): the DMA test with its buffers, ring registers, completion records
    and interrupt handler, the ioctl, probe and remove. The device is a parameter (a step of the bus for every
    register access and wait), with the contract of a working device as the locale \<open>dma_device\<close>. Shown: every return
    path releases what was taken, the verdicts, time-out on a silent device, probe and remove balance, and the one
    failure path that does not.

  \<^item> \<open>Guest_Tools\<close> (\<open>pcie-vip-run.c\<close>, \<open>pcie-vip-pcimem.c\<close>): number parsing, argument checks, the mapped access,
    the report. Shown: accesses stay inside the BAR, printing and parsing agree, configurations are valid.

  \<^item> \<open>Guest_System\<close>: the driver and the tool against the descriptor ring of \<open>Harness\<close>. A device that executes the
    ring is an interpretation of \<open>dma_device\<close>. Shown: the test passes and is reported as passed, success is sound on
    every device, descriptors and completion records mean the same on both sides, a second run times out.

  \<^item> \<open>Qemu_Device\<close> (\<open>hw/misc/pcie-vip.c\<close> in the patch): the device's own C codec, the socket loops, the one
    outstanding request, the reader thread, the bottom half, BAR accesses, realisation and removal. Shown: the C
    and C++ codecs are the same, messages cross unchanged, a read never returns made-up data, the bottom half
    refines serving requests in order, realisation and removal balance, except after a failed handshake.

  \<^item> This theory: properties that span the client and the server, and the QEMU device and the endpoint.

  \<^bold>\<open>Bounds.\<close> Fuel appears only where the code bounds a loop itself (200 idle polls, 50 readiness polls, 3 device
  messages, 50 status polls of the driver, its wait of 5 seconds, 100, 200, 1000 and 2000 clock ticks) or where a
  loop that runs for ever is observed for a number of iterations
  (\<open>IoThreadMain\<close>, \<open>Run_loop\<close>, \<open>standalone_loop\<close>, \<open>main_loop\<close>, \<open>pcie_vip_reader\<close>: one iteration per entry or
  unit of the argument). A socket script long enough for a transfer is a hypothesis (\<open>cooperative\<close>, and \<open>smooth\<close> for the
  QEMU side, which unlike \<open>socket.cpp\<close> gives up when a call would block); one call per byte always suffices.

  \<^bold>\<open>Not modelled.\<close> Log texts outside the logger, file-descriptor flags, signal installation, wall-clock time
  (a time-out is an outcome), memory exhaustion outside the driver, wave tracing, the floating-point rates in the
  report of \<open>pcie-vip-run\<close>, the registration of the QEMU class and its build glue. The SystemVerilog sources, the Python
  bridge, the packaging and the scripts are not modelled; the Verilator-generated class is the parameter \<open>eval\<close>.
\<close>

section \<open>The client against the server\<close>

text \<open>The HELLO message of the client, and the three messages of the device, as values.\<close>

definition hello_of :: "HostClient \<Rightarrow> Message" where
  "hello_of c = \<lparr> header = MakeHeader kHello (next_id (client_txn c)) 0 0 kSuccess (clock_ns c) 0 kFlagNone 0, payload = [] \<rparr>"

definition read_req_of :: "SoftwareEndpointModel \<Rightarrow> Message" where
  "read_req_of ep = \<lparr> header = MakeHeader kDmaReadReq (next_id (txn_gen (server ep))) (asq ep) 0 kSuccess
     (sim_time_ns ep + 60) 0 kFlagNone 64, payload = [] \<rparr>"

definition write_req_of :: "SoftwareEndpointModel \<Rightarrow> Message" where
  "write_req_of ep = \<lparr> header = MakeHeader kDmaWriteReq (next_id (txn_gen (server ep)) + 1) (acq ep) 0 kSuccess
     (sim_time_ns ep + 105) 16 kFlagNone 16, payload = completion \<rparr>"

definition msix_of :: "SoftwareEndpointModel \<Rightarrow> Message" where
  "msix_of ep = \<lparr> header = MakeHeader kMsiX (next_id (txn_gen (server ep)) + 2) 0 0 kSuccess
     (sim_time_ns ep + 135) 0 kFlagNone 0, payload = [] \<rparr>"

definition read_answer :: "Message \<Rightarrow> u64 \<Rightarrow> bytes \<Rightarrow> Message" where
  "read_answer r ts data = \<lparr> header = MakeHeader kDmaReadRsp (txn_id (header r)) (address (header r)) 0 kSuccess ts
     (of_nat (length data)) kFlagIsResponse 0, payload = data \<rparr>"

definition write_answer :: "Message \<Rightarrow> u64 \<Rightarrow> Message" where
  "write_answer w ts = \<lparr> header = MakeHeader kDmaWriteRsp (txn_id (header w)) (address (header w)) 0 kSuccess ts
     0 kFlagIsResponse 0, payload = [] \<rparr>"

lemma device_wire:
  "wire (read_req_of ep) = dma_read_req (next_id (txn_gen (server ep))) (sim_time_ns ep + 60) (asq ep)"
  "wire (write_req_of ep) = dma_write_req (next_id (txn_gen (server ep)) + 1) (sim_time_ns ep + 105) (acq ep)"
  "wire (msix_of ep) = msix_req (next_id (txn_gen (server ep)) + 2) (sim_time_ns ep + 135)"
  by (simp_all add: wire_def read_req_of_def write_req_of_def msix_of_def dma_read_req_def dma_write_req_def msix_req_def)

lemma answer_wire:
  "wire (read_answer r ts data) = dma_read_rsp r ts kSuccess data" "wire (write_answer w ts) = dma_write_rsp w ts kSuccess"
  by (simp_all add: wire_def read_answer_def write_answer_def dma_read_rsp_def dma_write_rsp_def)

lemma completion_expected: "completion = expected_completion"
  by (simp add: completion_def expected_completion_def)

lemma of_nat_16: "unat (16 :: u32) = 16"
  by simp

lemma device_sequence_of_endpoint: "device_sequence (read_req_of ep) (write_req_of ep) (msix_of ep)"
  by (simp add: device_sequence_def read_req_of_def write_req_of_def msix_of_def valid_message_def image_iff
      kMaxPayloadSize_def completion_expected)

lemma read_answer_ok:
  assumes "length data \<le> 16 * 1024 * 1024"
  shows "valid_message (read_answer r ts data)" "is_dma_rsp (read_answer r ts data)"
    "txn_id (header (read_answer r ts data)) = txn_id (header r)" "Status (header (read_answer r ts data)) = kSuccess"
  using payload_fits [OF assms] by (simp_all add: read_answer_def valid_message_def is_dma_rsp_def image_iff)

lemma write_answer_ok:
  "valid_message (write_answer w ts)" "is_dma_rsp (write_answer w ts)"
  "txn_id (header (write_answer w ts)) = txn_id (header w)" "Status (header (write_answer w ts)) = kSuccess"
  by (simp_all add: write_answer_def valid_message_def is_dma_rsp_def image_iff)

text \<open>
  C1: the doorbell sequence of the device and the service routine of the client fit together. If the
  bytes the device is going to receive are the client's answers and the bytes the client is going to
  receive are the device's requests, then both sides finish successfully, each side sends exactly what the
  other side receives, and the client's memory ends up with the completion at the completion queue base.
\<close>

theorem doorbell_end_to_end:
  assumes "link_up (194 + n) (272 + k) ep" "cooperative (208 + n') (192 + k') (socket c)"
    and "Type (header w) = kMmioWriteReq" "address (header w) = kSq0Doorbell" "length (payload w) = 4"
    and "read_wait env = [[OpIo]]" "write_wait env = [[OpIo]]"
    and "Memory_Read (asq ep) 64 (memory c) = Some data" "InBoundsLocked (acq ep) 16 (memory c)"
    and "rx (socket c) = wire (read_req_of ep) @ wire (write_req_of ep) @ wire (msix_of ep) @ rest"
    and "incoming ep = wire (read_answer (read_req_of ep) (clock_ns c + 5) data) @
                       wire (write_answer (write_req_of ep) (clock_ns c + 20)) @ rest'"
  shows "\<exists>ep' c'. Handle env w ep = Some ep' \<and> ServiceRtlInitiatedTransactions c = Some (True, c') \<and>
    sent ep' @ rest = sent ep @ write_rsp w (sim_time_ns ep) kSuccess @ rx (socket c) \<and>
    tx (socket c') @ rest' = tx (socket c) @ incoming ep \<and>
    Memory_Read (acq ep) 16 (memory c') = Some completion"
proof -
  let ?m1 = "read_answer (read_req_of ep) (clock_ns c + 5) data"
  let ?m2 = "write_answer (write_req_of ep) (clock_ns c + 20)"
  have len: "length data = 64" by (rule length_Memory_Read [OF assms(8)])
  then have ok1: "valid_message ?m1" "is_dma_rsp ?m1" "txn_id (header ?m1) = txn_id (header (read_req_of ep))"
    "Status (header ?m1) = kSuccess" using read_answer_ok [of data] by simp_all
  have pl: "payload ?m1 = data" "payload ?m2 = []" by (simp_all add: read_answer_def write_answer_def)
  have req: "txn_id (header (read_req_of ep)) = next_id (txn_gen (server ep))" "address (header (read_req_of ep)) = asq ep"
    "txn_id (header (write_req_of ep)) = next_id (txn_gen (server ep)) + 1" "address (header (write_req_of ep)) = acq ep"
    "transfer_len (header (read_req_of ep)) = 64"
    by (simp_all add: read_req_of_def write_req_of_def transfer_len_MakeHeader)
  have link: "link_up (130 + length (payload ?m1) + length (payload ?m2) + n) (272 + k) ep"
    using assms(1) pl len by simp
  obtain ep' where "Handle env w ep = Some ep'"
    "sent ep' = sent ep @ write_rsp w (sim_time_ns ep) kSuccess @ wire (read_req_of ep) @ wire (write_req_of ep) @ wire (msix_of ep)"
    using doorbell_sequence [OF link assms(3-5) ok1(1,2) _ ok1(4) write_answer_ok(1,2) _ write_answer_ok(4) assms(6,7,11)]
      ok1(3) write_answer_ok(3) [of "write_req_of ep" "clock_ns c + 20"] req
    by (auto simp: device_wire)
  moreover obtain c' where "ServiceRtlInitiatedTransactions c = Some (True, c')"
    "tx (socket c') = tx (socket c) @ wire ?m1 @ wire ?m2"
    "Memory_Read (acq ep) 16 (memory c') = Some expected_completion"
    using service_sequence [OF device_sequence_of_endpoint assms(10), of data n' k'] req assms(2,8,9) len
    by (auto simp: answer_wire)
  ultimately show ?thesis using assms(10,11) by (simp add: completion_expected)
qed

theorem doorbell_end_to_end_witness:
  "\<exists>ep c ep' c'. Handle quiet_env (mmio_msg kMmioWriteReq 9 kSq0Doorbell 0 [1, 0, 0, 0]) ep = Some ep' \<and>
     ServiceRtlInitiatedTransactions c = Some (True, c') \<and> sent ep = [] \<and>
     sent ep' = write_rsp (mmio_msg kMmioWriteReq 9 kSq0Doorbell 0 [1, 0, 0, 0]) 100 kSuccess @ rx (socket c) \<and>
     tx (socket c') = incoming ep \<and> Memory_Read 0 16 (memory c') = Some completion"
proof -
  let ?m = "InitDeterministicPattern (new_HostMemory (64 * 1024 * 1024))" and ?e0 = "sample_endpoint []"
  let ?w = "mmio_msg kMmioWriteReq 9 kSq0Doorbell 0 [1, 0, 0, 0]"
  have b: "InBoundsLocked 0 64 ?m" "InBoundsLocked 0 16 ?m" by (simp_all add: InBounds_iff)
  then obtain data where d: "Memory_Read 0 64 ?m = Some data" by (simp add: Memory_Read_def)
  let ?ep = "sample_endpoint (wire (read_answer (read_req_of ?e0) 105 data) @ wire (write_answer (write_req_of ?e0) 120) @ [])"
  let ?c = "sample_client (wire (read_req_of ?e0) @ wire (write_req_of ?e0) @ wire (msix_of ?e0) @ [])"
  have same: "read_req_of ?ep = read_req_of ?e0" "write_req_of ?ep = write_req_of ?e0" "msix_of ?ep = msix_of ?e0"
    by (simp_all add: read_req_of_def write_req_of_def msix_of_def)
  have budget: "link_up (194 + 0) (272 + 0) ?ep" "cooperative (208 + 0) (192 + 0) (socket ?c)"
    using sample_endpoint_link ideal_socket_cooperative by simp_all
  have streams: "incoming ?ep = wire (read_answer (read_req_of ?ep) (clock_ns ?c + 5) data) @
       wire (write_answer (write_req_of ?ep) (clock_ns ?c + 20)) @ []"
    "rx (socket ?c) = wire (read_req_of ?ep) @ wire (write_req_of ?ep) @ wire (msix_of ?ep) @ []"
    unfolding same by simp_all
  have "Type (header ?w) = kMmioWriteReq" by (simp add: image_iff)
  from doorbell_end_to_end [OF budget this _ _ _ _ _ _ streams(2,1), of quiet_env] d b obtain ep' c' where
    "Handle quiet_env ?w ?ep = Some ep'" "ServiceRtlInitiatedTransactions ?c = Some (True, c')"
    "sent ep' = write_rsp ?w 100 kSuccess @ rx (socket ?c)" "tx (socket c') = incoming ?ep"
    "Memory_Read 0 16 (memory c') = Some completion"
    by auto
  then show ?thesis by (intro exI [of _ ?ep] exI [of _ ?c] exI [of _ ep'] exI [of _ c']) simp
qed

text \<open>
  C2: the handshake of the client and of the server fit together. If the server accepts a connection on
  which the client's HELLO arrives and the client is going to receive the server's acknowledgement, then
  the server takes the client, the client's handshake succeeds, and each side sends exactly what the other
  side receives.
\<close>

theorem handshake_end_to_end:
  assumes "accepts (listener srv) = AcceptOk conn # as" "lpolls (listener srv) = PollReady POLLIN # ps"
    and "rx conn = wire (hello_of c) @ rest" "rx (socket c) = wire (hello_ack (hello_of c)) @ rest'"
    and "cooperative (64 + n) (64 + k) conn" "cooperative (64 + n') (64 + k') (socket c)"
  shows "\<exists>srv' c'. IoThread_accept srv = Some srv' \<and> has_client srv' \<and> DoHello c = Some (True, c') \<and>
    tx (client_socket srv') @ rest' = tx conn @ rx (socket c) \<and> tx (socket c') @ rest = tx (socket c) @ rx conn"
proof -
  have hello: "valid_message (hello_of c)" "Type (header (hello_of c)) = kHello" "payload (hello_of c) = []"
    by (simp_all add: hello_of_def valid_message_def image_iff)
  have ack: "valid_message (hello_ack (hello_of c))" "Type (header (hello_ack (hello_of c))) = kHelloAck"
    "payload (hello_ack (hello_of c)) = []"
    by (simp_all add: hello_ack_def valid_message_def image_iff)
  have "cooperative (64 + length (payload (hello_of c)) + n) (64 + k) conn" using assms(5) hello by simp
  from IoThread_accept_completes [OF assms(1,2,3) hello(1,2) this] obtain srv' where
    s: "IoThread_accept srv = Some srv'" "has_client srv'" "tx (client_socket srv') = tx conn @ wire (hello_ack (hello_of c))"
    by blast
  have "cooperative (64 + length (payload (hello_ack (hello_of c))) + n') (64 + length ([] :: bytes) + k') (socket c)"
    using assms(6) ack by simp
  from SendRequestAndWait_cooperative [OF ack(1) assms(4) this, of kHello 0 0] obtain c1 where
    "SendRequestAndWait kHello 0 0 [] c = Some (Some (hello_ack (hello_of c)), c1)"
    "tx (socket c1) = tx (socket c) @ wire (hello_of c)"
    by (auto simp: client_request_def wire_def hello_of_def)
  then have "DoHello c = Some (True, host_log c1)" "tx (socket (host_log c1)) = tx (socket c) @ wire (hello_of c)"
    using ack(2) by (simp_all add: DoHello_def)
  with s assms(3,4) show ?thesis by auto
qed

theorem handshake_end_to_end_witness:
  "\<exists>srv' c'. IoThread_accept (idle_server (ideal_socket 130 6 (wire (hello_of (sample_client []))))) = Some srv' \<and>
     has_client srv' \<and> DoHello (sample_client (wire (hello_ack (hello_of (sample_client []))))) = Some (True, c')"
proof -
  let ?c = "sample_client (wire (hello_ack (hello_of (sample_client []))) @ [])"
  let ?conn = "ideal_socket 130 6 (wire (hello_of (sample_client [])) @ [])"
  have same: "hello_of ?c = hello_of (sample_client [])" by (simp add: hello_of_def sample_client_def)
  have streams: "rx ?conn = wire (hello_of ?c) @ []" "rx (socket ?c) = wire (hello_ack (hello_of ?c)) @ []"
    unfolding same by simp_all
  have budget: "cooperative (64 + 0) (64 + 0) ?conn" "cooperative (64 + 0) (64 + 0) (socket ?c)"
    using ideal_socket_cooperative by simp_all
  from handshake_end_to_end [OF _ _ streams budget, of "idle_server ?conn" "[]" "[]"] show ?thesis by auto
qed

section \<open>The QEMU device against the endpoint\<close>

text \<open>The responses of the endpoint to the BAR accesses of the guest, as messages.\<close>

definition bar_write_rsp :: "Message \<Rightarrow> u64 \<Rightarrow> Message" where
  "bar_write_rsp w ts = \<lparr> header = MakeHeader kMmioWriteRsp (txn_id (header w)) (address (header w)) 0 kSuccess ts 0 kFlagIsResponse 0,
     payload = [] \<rparr>"

definition bar_read_rsp :: "Message \<Rightarrow> u64 \<Rightarrow> bytes \<Rightarrow> Message" where
  "bar_read_rsp r ts pl = \<lparr> header = MakeHeader kMmioReadRsp (txn_id (header r)) (address (header r)) 0 kSuccess ts (of_nat (length pl))
     kFlagIsResponse 0, payload = pl \<rparr>"

lemma bar_rsp_wire:
  "wire (bar_write_rsp w ts) = write_rsp w ts kSuccess" "wire (bar_read_rsp r ts pl) = read_rsp r ts kSuccess pl"
  by (simp_all add: wire_def bar_write_rsp_def bar_read_rsp_def write_rsp_def read_rsp_def)

lemma bar_rsp_good:
  "txn_id (header w) = t \<Longrightarrow> good_response t 6 (mics_msg_of (bar_write_rsp w ts))"
  "txn_id (header r) = t \<Longrightarrow> good_response t 4 (mics_msg_of (bar_read_rsp r ts pl))"
  by (simp_all add: good_response_def bar_write_rsp_def bar_read_rsp_def kFlagIsResponse_def MICS_FLAG_RESPONSE_def)

lemma le_value_low: "le_value (le_bytes 4 (v :: u64)) = (ucast (ucast v :: u32) :: u64)"
proof (rule bit_word_eqI)
  fix k assume "k < LENGTH(64)"
  then show "bit (le_value (le_bytes 4 v) :: u64) k = bit (ucast (ucast v :: u32) :: u64) k"
    by (cases "k < 32") (auto simp: bit_le_value bit_byte_of bit_simps)
qed

text \<open>
  C4: a register behaves like a register for the guest, across both programs. A 4-byte store of the guest to
  CC or AQA and a following 4-byte load become two messages on the wire that the endpoint handles; the two
  messages the endpoint sends back, delivered by the reader thread, complete the accesses, and the load returns
  the low 32 bits of the value that was stored.
\<close>

theorem guest_register_roundtrip:
  assumes "link_up n (132 + k) ep" "\<not> doorbell_rung ep" "reg = kCcReg \<or> reg = kAqaReg"
    and "q_connected s" "\<not> q_pending_active s" "smooth i (132 + j) (q_sock s)"
  shows "\<exists>s1 s2 ep1 ep2 w r rsp_w rsp_r. pcie_vip_mmio_write reg v 4 [[Deliver (mics_msg_of rsp_w)]] s = Some s1 \<and>
    tx (q_sock s1) = tx (q_sock s) @ wire w \<and> Handle env w ep = Some ep1 \<and> sent ep1 = sent ep @ wire rsp_w \<and>
    pcie_vip_mmio_read reg 4 [[Deliver (mics_msg_of rsp_r)]] s1 = Some (ucast (ucast v :: u32), s2) \<and>
    tx (q_sock s2) = tx (q_sock s1) @ wire r \<and> Handle env' r ep1 = Some ep2 \<and> sent ep2 = sent ep1 @ wire rsp_r"
proof -
  let ?w = "bar_write_req s reg v 4" and ?ts = "sim_time_ns ep"
  let ?rw = "bar_write_rsp ?w ?ts"
  have "smooth i (64 + 4 + (64 + j)) (q_sock s)" using assms(6) by (simp add: add.assoc [symmetric])
  with mmio_write_delivers [of 4 s i "64 + j" "[]" "[]" "mics_msg_of ?rw" reg v "[]"] assms(4,5) obtain s1 where
    s1: "pcie_vip_mmio_write reg v 4 [[Deliver (mics_msg_of ?rw)]] s = Some s1" "tx (q_sock s1) = tx (q_sock s) @ wire ?w"
      "smooth i (64 + j) (q_sock s1)" "\<not> q_pending_active s1" "q_connected s1"
    by (auto simp: bar_rsp_good bar_write_req_def)
  let ?r = "bar_read_req s1 reg 4"
  let ?rr = "bar_read_rsp ?r ?ts (le_bytes 4 v)"
  from mmio_read_delivers [of 4 s1 i j "[]" "[]" "mics_msg_of ?rr" reg "[]"] s1(3-5) obtain s2 where
    s2: "pcie_vip_mmio_read reg 4 [[Deliver (mics_msg_of ?rr)]] s1 = Some (ucast (ucast v :: u32), s2)" "tx (q_sock s2) = tx (q_sock s1) @ wire ?r"
    by (auto simp: bar_rsp_good bar_read_req_def le_value_low) (auto simp: bar_read_rsp_def le_value_low)
  from register_write_read [OF assms(1,2), of ?w reg ?r env env'] assms(3) obtain ep1 ep2 where
    "Handle env ?w ep = Some ep1" "Handle env' ?r ep1 = Some ep2" "sent ep1 = sent ep @ wire ?rw" "sent ep2 = sent ep1 @ wire ?rr"
    by (auto simp: bar_write_req_def bar_read_req_def image_iff transfer_len_MakeHeader bar_rsp_wire)
  with s1 s2 show ?thesis by blast
qed

theorem guest_register_roundtrip_witness:
  "\<exists>s1 s2 rsp_w rsp_r. pcie_vip_mmio_write kCcReg 0x460001 4 [[Deliver (mics_msg_of rsp_w)]] (sample_qemu 200 []) = Some s1 \<and>
    pcie_vip_mmio_read kCcReg 4 [[Deliver (mics_msg_of rsp_r)]] s1 = Some (0x460001, s2)"
proof -
  have "\<not> doorbell_rung (sample_endpoint [])" "smooth 0 (132 + 0) (q_sock (sample_qemu 200 []))" by (simp_all add: ideal_socket_smooth)
  from guest_register_roundtrip [OF sample_endpoint_link [of 0 "132 + 0" "[]"] this(1) disjI1 [OF refl] _ _ this(2), of "0x460001" quiet_env quiet_env]
  show ?thesis by fastforce
qed

text \<open>The three messages of the doorbell sequence as the reader thread hands them to the device.\<close>

definition doorbell_work :: "SoftwareEndpointModel \<Rightarrow> MicsMessage list" where
  "doorbell_work ep = map mics_msg_of [read_req_of ep, write_req_of ep, msix_of ep]"

abbreviation qemu_read_answer :: "PcieVipState \<Rightarrow> SoftwareEndpointModel \<Rightarrow> Message" where
  "qemu_read_answer s ep \<equiv> dma_response (q_dma_ok s) (q_max_transfer s) (q_clock s) (q_mem s) (mics_msg_of (read_req_of ep))"

abbreviation qemu_write_answer :: "PcieVipState \<Rightarrow> SoftwareEndpointModel \<Rightarrow> Message" where
  "qemu_write_answer s ep \<equiv> dma_response (q_dma_ok s) (q_max_transfer s) (q_clock s) (q_mem s) (mics_msg_of (write_req_of ep))"

lemma request_fields:
  "msg_type (header (read_req_of ep)) = 7" "transfer_len (header (read_req_of ep)) = 64" "address (header (read_req_of ep)) = asq ep"
  "msg_type (header (write_req_of ep)) = 9" "transfer_len (header (write_req_of ep)) = 16" "address (header (write_req_of ep)) = acq ep"
  "payload_len (header (write_req_of ep)) = 16" "payload (write_req_of ep) = completion" "payload (read_req_of ep) = []"
  "payload_len (header (read_req_of ep)) = 0" "payload_len (header (msix_of ep)) = 0" "payload (msix_of ep) = []"
  "msg_type (header (msix_of ep)) = 11" "address (header (msix_of ep)) = 0"
  by (simp_all add: read_req_of_def write_req_of_def msix_of_def transfer_len_MakeHeader)

lemma request_txn:
  "txn_id (header (read_req_of ep)) = next_id (txn_gen (server ep))" "txn_id (header (write_req_of ep)) = next_id (txn_gen (server ep)) + 1"
  "flags (header (read_req_of ep)) = 0" "flags (header (write_req_of ep)) = 0" "flags (header (msix_of ep)) = 0"
  by (simp_all add: read_req_of_def write_req_of_def msix_of_def kFlagNone_def)

lemma works_doorbell: "works (map Deliver (doorbell_work ep)) = doorbell_work ep"
  by (simp add: doorbell_work_def is_work_def request_fields request_txn)

lemma doorbell_granted:
  assumes "q_dma_ok s (asq ep) 64" "q_dma_ok s (acq ep) 16" "64 \<le> q_max_transfer s"
  shows "dma_granted (q_dma_ok s) (q_max_transfer s) (mics_msg_of (read_req_of ep))"
    "dma_granted (q_dma_ok s) (q_max_transfer s) (mics_msg_of (write_req_of ep))"
proof -
  have "(16 :: u32) \<le> 64" by simp
  then have "16 \<le> q_max_transfer s" using assms(3) by (rule order_trans)
  with assms show "dma_granted (q_dma_ok s) (q_max_transfer s) (mics_msg_of (read_req_of ep))"
    "dma_granted (q_dma_ok s) (q_max_transfer s) (mics_msg_of (write_req_of ep))"
    by (simp_all add: dma_granted_def request_fields)
qed

lemma serve_doorbell:
  assumes "q_dma_ok s (asq ep) 64" "q_dma_ok s (acq ep) 16" "64 \<le> q_max_transfer s"
  shows "fold (serve_abs (q_dma_ok s) (q_max_transfer s) (q_clock s)) (doorbell_work ep) (out, q_mem s, irqs) =
    (out @ wire (qemu_read_answer s ep) @ wire (qemu_write_answer s ep), mem_store (q_mem s) (acq ep) completion, irqs @ [0])"
  using doorbell_granted [OF assms] by (simp add: doorbell_work_def serve_abs_def request_fields)

lemma process_doorbell:
  assumes "q_connected s" "q_work_queue s = []" "q_dma_ok s (asq ep) 64" "q_dma_ok s (acq ep) 16" "64 \<le> q_max_transfer s"
    and "smooth i (256 + j) (q_sock s)"
  shows "\<exists>s'. pcie_vip_process_work (fold reader_do (map Deliver (doorbell_work ep)) s) = Some s' \<and> q_work_queue s' = [] \<and>
    abs_dma s' = (tx (q_sock s) @ wire (qemu_read_answer s ep) @ wire (qemu_write_answer s ep), mem_store (q_mem s) (acq ep) completion, q_msix s @ [0])"
proof -
  define s0 where "s0 = fold reader_do (map Deliver (doorbell_work ep)) s"
  have frame: "q_sock s0 = q_sock s" "q_mem s0 = q_mem s" "q_clock s0 = q_clock s" "q_max_transfer s0 = q_max_transfer s" "q_dma_ok s0 = q_dma_ok s"
    "q_msix s0 = q_msix s" by (simp_all add: s0_def del: fold_map)
  have queue: "q_work_queue s0 = doorbell_work ep" using assms(2) by (simp add: s0_def reader_queues works_doorbell del: fold_map)
  have "list_all (noise (q_pending_txn_id s)) (map Deliver (doorbell_work ep))" by (simp add: doorbell_work_def request_txn)
  from fold_noise [OF this] have conn: "q_connected s0" using assms(1) by (simp add: s0_def)
  have "sum_list (map (reply_cost (q_max_transfer s)) (doorbell_work ep)) \<le> 256" by (simp add: doorbell_work_def reply_cost_def request_fields)
  then have sm: "smooth i (sum_list (map (reply_cost (q_max_transfer s0)) (q_work_queue s0)) + j) (q_sock s0)"
    using assms(6) by (auto simp: frame queue elim: smooth_mono)
  have "\<forall>w \<in> set (q_work_queue s0). length (mpayload w) = unat (m_payload_len (mh w))"
    by (simp add: queue doorbell_work_def request_fields completion_def)
  from process_work_abs [OF conn this sm] serve_doorbell [OF assms(3-5), of "tx (q_sock s)" "q_msix s"] show ?thesis
    by (auto simp: queue frame abs_dma_def simp flip: s0_def)
qed

text \<open>
  C3: the doorbell of the endpoint runs to the end against the QEMU device. When the endpoint handles a doorbell
  write, and the QEMU device receives the three messages the endpoint sends and its bottom half runs, then the
  bytes that QEMU sends are exactly the two DMA answers the endpoint waits for, the endpoint finishes its sequence
  having sent the write response and these three messages, the completion entry is in guest memory at the
  completion queue, and the guest has been interrupted once, on vector 0.
\<close>

theorem qemu_serves_doorbell:
  assumes "link_up (194 + n) (272 + k) ep" "Type (header w) = kMmioWriteReq" "address (header w) = kSq0Doorbell" "length (payload w) = 4"
    and "read_wait env = [[OpIo]]" "write_wait env = [[OpIo]]"
    and "q_connected s" "q_work_queue s = []" "q_dma_ok s (asq ep) 64" "q_dma_ok s (acq ep) 16"
    and "64 \<le> q_max_transfer s" "q_max_transfer s \<le> MICS_MAX_PAYLOAD" "smooth i (256 + j) (q_sock s)"
    and "incoming ep = wire (qemu_read_answer s ep) @ wire (qemu_write_answer s ep) @ rest"
  shows "\<exists>ep' s'. Handle env w ep = Some ep' \<and> incoming ep' = rest \<and>
    sent ep' = sent ep @ write_rsp w (sim_time_ns ep) kSuccess @ wire (read_req_of ep) @ wire (write_req_of ep) @ wire (msix_of ep) \<and>
    pcie_vip_process_work (fold reader_do (map Deliver (doorbell_work ep)) s) = Some s' \<and> q_work_queue s' = [] \<and>
    tx (q_sock s') = tx (q_sock s) @ wire (qemu_read_answer s ep) @ wire (qemu_write_answer s ep) \<and>
    mem_load (q_mem s') (acq ep) 16 = completion \<and> q_msix s' = q_msix s @ [0]"
proof -
  note granted = doorbell_granted [OF assms(9-11)]
  note valid = dma_response_valid [OF assms(12)]
  have pl: "length (payload (qemu_read_answer s ep)) = 64" "length (payload (qemu_write_answer s ep)) = 0"
    using granted by (simp_all add: dma_response_def Let_def request_fields)
  have st: "Status (header (qemu_read_answer s ep)) = kSuccess" "Status (header (qemu_write_answer s ep)) = kSuccess"
    using granted by (simp_all add: dma_response_def Let_def image_iff)
  have "link_up (130 + length (payload (qemu_read_answer s ep)) + length (payload (qemu_write_answer s ep)) + n) (272 + k) ep"
    using assms(1) pl by simp
  from doorbell_sequence [OF this assms(2-4), of env rest] valid st assms(5,6,14) obtain ep' where
    "Handle env w ep = Some ep'" "incoming ep' = rest"
    "sent ep' = sent ep @ write_rsp w (sim_time_ns ep) kSuccess @ wire (read_req_of ep) @ wire (write_req_of ep) @ wire (msix_of ep)"
    by (auto simp: request_txn device_wire)
  moreover note process_doorbell [OF assms(7-11,13)]
  ultimately show ?thesis using mem_store_same [of completion "q_mem s" "acq ep"] by (auto simp: abs_dma_def)
qed

theorem qemu_serves_doorbell_witness:
  "\<exists>ep ep' s'. Handle quiet_env (mmio_msg kMmioWriteReq 3 kSq0Doorbell 0 [1, 0, 0, 0]) ep = Some ep' \<and>
    pcie_vip_process_work (fold reader_do (map Deliver (doorbell_work ep)) (sample_qemu 300 [])) = Some s' \<and>
    mem_load (q_mem s') (acq ep) 16 = completion \<and> q_msix s' = [0]"
proof -
  let ?s = "(sample_qemu 300 [])\<lparr>q_work_queue := []\<rparr>" and ?w = "mmio_msg kMmioWriteReq 3 kSq0Doorbell 0 [1, 0, 0, 0]"
  define inb where "inb = wire (qemu_read_answer ?s (sample_endpoint [])) @ wire (qemu_write_answer ?s (sample_endpoint []))"
  let ?ep = "sample_endpoint inb"
  have same: "read_req_of ?ep = read_req_of (sample_endpoint [])" "write_req_of ?ep = write_req_of (sample_endpoint [])"
    by (simp_all add: read_req_of_def write_req_of_def)
  have inc: "incoming ?ep = wire (qemu_read_answer ?s ?ep) @ wire (qemu_write_answer ?s ?ep) @ []" unfolding same by (simp add: inb_def)
  have "link_up (194 + 0) (272 + 0) ?ep" "smooth 0 (256 + 0) (q_sock ?s)" by (simp_all add: sample_endpoint_link ideal_socket_smooth)
  from qemu_serves_doorbell [OF this(1) _ _ _ _ _ _ _ _ _ _ _ this(2) inc, of ?w quiet_env] have
    "\<exists>ep' s'. Handle quiet_env ?w ?ep = Some ep' \<and> pcie_vip_process_work (fold reader_do (map Deliver (doorbell_work ?ep)) ?s) = Some s' \<and>
       mem_load (q_mem s') (acq ?ep) 16 = completion \<and> q_msix s' = [0]"
    by (auto simp: image_iff MICS_MAX_PAYLOAD_def simp del: fold_map)
  moreover have "?s = sample_qemu 300 []" by (simp add: sample_qemu_def)
  ultimately show ?thesis by auto
qed

end
